theory Spec2Isabelle
  imports Complex_Main
begin

section \<open>Data model of \<open>src/index.js\<close>\<close>

text \<open>
  A player is identified by the id of its socket, a string. A number that a client
  submits is a finite double, given by its exact rational value. The results of the
  arithmetic of \<open>calculateRoundResults\<close> are doubles, which can also be \<open>NaN\<close> and the
  two infinities; the two zeros are not told apart (no operation of the code does).
\<close>

type_synonym socketId = string

datatype jsnum = NaN | Infinity | NegInfinity | Num rat

subsection \<open>Arithmetic of IEEE 754 doubles\<close>

text \<open>
  \<open>rnd q\<close> is the double nearest to the rational \<open>q\<close>, ties to the even significand:
  53 significant bits, exponents from \<open>-1022\<close> (subnormal numbers below) to \<open>1023\<close>,
  and overflow to an infinity from \<open>2^1024 - 2^970\<close> on. \<open>exponentOf q\<close> is the
  exponent \<open>e\<close> with \<open>2^e \<le> q < 2^(e+1)\<close>, found from the length in bits of the
  integer part of \<open>q\<close>, or of \<open>1 / q\<close> below one.
\<close>

function bitLength :: "int \<Rightarrow> int" where
  "bitLength n = (if n \<le> 0 then 0 else 1 + bitLength (n div 2))"
  by pat_completeness auto
termination
  by (relation "measure nat") auto

declare bitLength.simps [simp del]

definition pow2 :: "int \<Rightarrow> rat" where
  "pow2 k = (if 0 \<le> k then 2 ^ nat k else 1 / 2 ^ nat (- k))"

definition exponentOf :: "rat \<Rightarrow> int" where
  "exponentOf q = (if 1 \<le> q then bitLength \<lfloor>q\<rfloor> - 1 else - bitLength (\<lceil>1 / q\<rceil> - 1))"

definition roundHalfEven :: "rat \<Rightarrow> int" where
  "roundHalfEven m =
     (let f = \<lfloor>m\<rfloor>; d = m - of_int f
      in if d < 1 / 2 then f else if 1 / 2 < d then f + 1 else if even f then f else f + 1)"

definition rnd :: "rat \<Rightarrow> jsnum" where
  "rnd q =
     (if q = 0 then Num 0
      else
        (let e = exponentOf \<bar>q\<bar>;
             ulp = pow2 (max e (- 1022) - 52);
             v = of_int (roundHalfEven (\<bar>q\<bar> / ulp)) * ulp
         in if pow2 1024 \<le> v then (if 0 < q then Infinity else NegInfinity)
            else Num (if 0 < q then v else - v)))"

text \<open>The operators \<open>+\<close>, \<open>-\<close>, \<open>*\<close>, \<open>/\<close>, \<open>Math.abs\<close> and \<open><\<close> on doubles.\<close>

fun js_neg :: "jsnum \<Rightarrow> jsnum" where
  "js_neg NaN = NaN"
| "js_neg Infinity = NegInfinity"
| "js_neg NegInfinity = Infinity"
| "js_neg (Num x) = Num (- x)"

fun js_add :: "jsnum \<Rightarrow> jsnum \<Rightarrow> jsnum" where
  "js_add (Num x) (Num y) = rnd (x + y)"
| "js_add NaN b = NaN"
| "js_add a NaN = NaN"
| "js_add Infinity NegInfinity = NaN"
| "js_add NegInfinity Infinity = NaN"
| "js_add Infinity b = Infinity"
| "js_add a Infinity = Infinity"
| "js_add NegInfinity b = NegInfinity"
| "js_add a NegInfinity = NegInfinity"

definition js_sub :: "jsnum \<Rightarrow> jsnum \<Rightarrow> jsnum" where
  "js_sub a b = js_add a (js_neg b)"

fun js_mul :: "jsnum \<Rightarrow> jsnum \<Rightarrow> jsnum" where
  "js_mul (Num x) (Num y) = rnd (x * y)"
| "js_mul NaN b = NaN"
| "js_mul a NaN = NaN"
| "js_mul (Num x) Infinity = (if x = 0 then NaN else if 0 < x then Infinity else NegInfinity)"
| "js_mul (Num x) NegInfinity = (if x = 0 then NaN else if 0 < x then NegInfinity else Infinity)"
| "js_mul Infinity (Num y) = (if y = 0 then NaN else if 0 < y then Infinity else NegInfinity)"
| "js_mul NegInfinity (Num y) = (if y = 0 then NaN else if 0 < y then NegInfinity else Infinity)"
| "js_mul Infinity Infinity = Infinity"
| "js_mul NegInfinity NegInfinity = Infinity"
| "js_mul Infinity NegInfinity = NegInfinity"
| "js_mul NegInfinity Infinity = NegInfinity"

text \<open>
  The quotient of a double by \<open>numbers.length\<close>, a count: the divisor is zero or
  positive, and never the negative zero.
\<close>

fun js_div :: "jsnum \<Rightarrow> nat \<Rightarrow> jsnum" where
  "js_div (Num x) n =
     (if n = 0 then (if x = 0 then NaN else if 0 < x then Infinity else NegInfinity)
      else rnd (x / of_nat n))"
| "js_div NaN n = NaN"
| "js_div Infinity n = Infinity"
| "js_div NegInfinity n = NegInfinity"

fun js_abs :: "jsnum \<Rightarrow> jsnum" where
  "js_abs NaN = NaN"
| "js_abs Infinity = Infinity"
| "js_abs NegInfinity = Infinity"
| "js_abs (Num x) = Num \<bar>x\<bar>"

fun js_less :: "jsnum \<Rightarrow> jsnum \<Rightarrow> bool" where
  "js_less (Num a) (Num b) = (a < b)"
| "js_less (Num a) Infinity = True"
| "js_less NegInfinity (Num b) = True"
| "js_less NegInfinity Infinity = True"
| "js_less _ _ = False"

text \<open>
  \<open>Player\<close> objects are shared by reference. Every insertion into a players map stores
  a fresh object under the socket id, so an object is identified by its key. A variable
  holding a player is therefore \<open>null\<close>, \<open>undefined\<close> (the result of \<open>Map.get\<close> on a
  missing key) or a reference to the object stored under a key.
\<close>

datatype playerRef = Null | Undefined | Ref socketId

record Player =
  id' :: socketId
  name :: string
  points :: int
  isAlive :: bool
  number :: "rat option"

definition new_Player :: "socketId \<Rightarrow> string \<Rightarrow> Player" where
  "new_Player i n = \<lparr>id' = i, name = n, points = 0, isAlive = True, number = None\<rparr>"

datatype phase = waiting | playing | roundEnd

datatype error = TypeError

subsection \<open>The JavaScript \<open>Map\<close>: an association list in insertion order\<close>

definition Map_get :: "('k \<times> 'v) list \<Rightarrow> 'k \<Rightarrow> 'v option" where
  "Map_get m k = map_of m k"

definition Map_has :: "('k \<times> 'v) list \<Rightarrow> 'k \<Rightarrow> bool" where
  "Map_has m k = (k \<in> set (map fst m))"

text \<open>\<open>Map.set\<close> overwrites the value of an existing key in place and appends a new key.\<close>

fun Map_set :: "'k \<Rightarrow> 'v \<Rightarrow> ('k \<times> 'v) list \<Rightarrow> ('k \<times> 'v) list" where
  "Map_set k v [] = [(k, v)]"
| "Map_set k v ((k', v') # m) = (if k' = k then (k, v) # m else (k', v') # Map_set k v m)"

definition Map_delete :: "'k \<Rightarrow> ('k \<times> 'v) list \<Rightarrow> ('k \<times> 'v) list" where
  "Map_delete k m = filter (\<lambda>e. fst e \<noteq> k) m"

text \<open>A field assignment on the object stored under a key.\<close>

fun mutate :: "'k \<Rightarrow> ('v \<Rightarrow> 'v) \<Rightarrow> ('k \<times> 'v) list \<Rightarrow> ('k \<times> 'v) list" where
  "mutate k f [] = []"
| "mutate k f ((k', v) # m) = (if k' = k then (k', f v) # m else (k', v) # mutate k f m)"

subsection \<open>class \<open>DeathGame\<close>\<close>

record DeathGame =
  players :: "(socketId \<times> Player) list"
  round' :: nat
  eliminatedCount :: nat
  roundStartTime :: "nat option"
  currentPhase :: phase
  roundNumbers :: "(socketId \<times> rat) list"

definition new_DeathGame :: "(socketId \<times> Player) list \<Rightarrow> DeathGame" where
  "new_DeathGame ps =
     \<lparr>players = ps, round' = 1, eliminatedCount = 0, roundStartTime = None,
      currentPhase = waiting, roundNumbers = []\<rparr>"

definition getAlivePlayers :: "DeathGame \<Rightarrow> Player list" where
  "getAlivePlayers g = filter isAlive (map snd (players g))"

definition isNewRuleRound :: "DeathGame \<Rightarrow> bool" where
  "isNewRuleRound g =
     (round' g = 1 \<or>
      int (eliminatedCount g) = int (length (players g)) - 4 \<or>
      int (eliminatedCount g) = int (length (players g)) - 3 \<or>
      int (eliminatedCount g) = int (length (players g)) - 2)"

record RoundInfo =
  roundNo :: nat
  timeLimit :: nat
  playersRemaining :: nat

text \<open>\<open>startRound\<close>; the value of \<open>Date.now()\<close> is an argument.\<close>

definition startRound :: "nat \<Rightarrow> DeathGame \<Rightarrow> DeathGame \<times> RoundInfo" where
  "startRound now g =
     (let g' = g\<lparr>currentPhase := playing, roundStartTime := Some now, roundNumbers := []\<rparr>
      in (g', \<lparr>roundNo = round' g',
               timeLimit = (if isNewRuleRound g' then 300 else 60),
               playersRemaining = length (getAlivePlayers g')\<rparr>))"

definition submitNumber :: "socketId \<Rightarrow> rat \<Rightarrow> DeathGame \<Rightarrow> DeathGame \<times> bool" where
  "submitNumber playerId n g =
     (if currentPhase g \<noteq> playing then (g, False)
      else if \<not> (case Map_get (players g) playerId of None \<Rightarrow> False | Some p \<Rightarrow> isAlive p)
      then (g, False)
      else let g' = g\<lparr>roundNumbers := Map_set playerId n (roundNumbers g)\<rparr>
           in (g', length (roundNumbers g') = length (getAlivePlayers g')))"

subsection \<open>\<open>calculateRoundResults\<close>\<close>

text \<open>\<open>Array.prototype.indexOf\<close>: the first index of the value, or \<open>-1\<close>.\<close>

fun indexOf :: "'a list \<Rightarrow> 'a \<Rightarrow> int" where
  "indexOf [] x = -1"
| "indexOf (y # ys) x =
     (if y = x then 0 else (let r = indexOf ys x in if r = -1 then -1 else r + 1))"

text \<open>\<open>numbers.filter((num, index) => numbers.indexOf(num) !== index)\<close>\<close>

definition findDuplicates :: "rat list \<Rightarrow> rat list" where
  "findDuplicates nums =
     map fst (filter (\<lambda>(num, index). indexOf nums num \<noteq> int index)
                     (zip nums [0 ..< length nums]))"

text \<open>\<open>numbers.reduce((a, b) => a + b, 0) / numbers.length\<close>\<close>

definition average_of :: "rat list \<Rightarrow> jsnum" where
  "average_of nums = js_div (foldl (\<lambda>a b. js_add a (Num b)) (Num 0) nums) (length nums)"

text \<open>\<open>avg * 0.8\<close>, where the literal \<open>0.8\<close> is the double nearest to four fifths.\<close>

definition target_of :: "jsnum \<Rightarrow> jsnum" where
  "target_of avg = js_mul avg (rnd (8 / 10))"

text \<open>\<open>Math.abs(number - target)\<close>\<close>

definition distance_to :: "rat \<Rightarrow> jsnum \<Rightarrow> jsnum" where
  "distance_to n t = js_abs (js_sub (Num n) t)"

definition players_get :: "DeathGame \<Rightarrow> socketId \<Rightarrow> playerRef" where
  "players_get g k = (if Map_has (players g) k then Ref k else Undefined)"

text \<open>The loop that finds the winner, lines 86 to 98.\<close>

fun findWinner ::
  "DeathGame \<Rightarrow> rat list \<Rightarrow> jsnum \<Rightarrow> (socketId \<times> rat) list \<Rightarrow> playerRef \<times> jsnum \<Rightarrow> playerRef \<times> jsnum"
where
  "findWinner g dups t [] acc = acc"
| "findWinner g dups t ((playerId, n) # rest) (closestPlayer, closestDistance) =
     (if n \<in> set dups \<and> length (getAlivePlayers g) \<le> 4
      then findWinner g dups t rest (closestPlayer, closestDistance)
      else let distance = distance_to n t
           in if js_less distance closestDistance
              then findWinner g dups t rest (players_get g playerId, distance)
              else findWinner g dups t rest (closestPlayer, closestDistance))"

text \<open>
  The loop that applies the penalties, lines 101 to 110. \<open>player.points\<close> on
  \<open>undefined\<close> throws a \<open>TypeError\<close>.
\<close>

fun applyPenalties ::
  "playerRef \<Rightarrow> jsnum \<Rightarrow> (socketId \<times> rat) list \<Rightarrow> DeathGame \<Rightarrow> error + DeathGame"
where
  "applyPenalties closestPlayer t [] g = Inr g"
| "applyPenalties closestPlayer t ((playerId, n) # rest) g =
     (let player = players_get g playerId
      in if player \<noteq> closestPlayer
         then (case player of
                 Ref k \<Rightarrow>
                   (let penalty = (-1 :: int);
                        penalty = (if length (getAlivePlayers g) = 3 \<and> Num n = t
                                   then penalty * 2 else penalty)
                    in applyPenalties closestPlayer t rest
                         (g\<lparr>players := mutate k (\<lambda>p. p\<lparr>points := points p + penalty\<rparr>) (players g)\<rparr>))
               | _ \<Rightarrow> Inl TypeError)
         else applyPenalties closestPlayer t rest g)"

text \<open>
  The loop that checks eliminations, lines 113 to 120, over the entries of the players
  map: it returns the entries, the counter and the list \<open>newEliminations\<close> (as keys).
\<close>

fun checkEliminations ::
  "(socketId \<times> Player) list \<Rightarrow> nat \<Rightarrow> (socketId \<times> Player) list \<times> nat \<times> socketId list"
where
  "checkEliminations [] ec = ([], ec, [])"
| "checkEliminations ((k, p) # ps) ec =
     (if isAlive p \<and> points p \<le> -10
      then (case checkEliminations ps (ec + 1) of
              (ps', ec', el) \<Rightarrow> ((k, p\<lparr>isAlive := False\<rparr>) # ps', ec', k # el))
      else (case checkEliminations ps ec of
              (ps', ec', el) \<Rightarrow> ((k, p) # ps', ec', el)))"

record RoundResults =
  numbers :: "(socketId \<times> rat) list"
  average :: jsnum
  target :: jsnum
  winner :: playerRef
  duplicates :: "rat list"
  eliminations :: "socketId list"
  gameOver :: bool

text \<open>
  The two shapes of the returned object: the shortcut of the rule for two players,
  \<open>{winner, gameOver, specialRule}\<close>, and the full results.
\<close>

datatype results = Special playerRef bool bool | Results RoundResults

fun winner_of :: "results \<Rightarrow> playerRef" where
  "winner_of (Special w g sr) = w"
| "winner_of (Results r) = winner r"

fun gameOver_of :: "results \<Rightarrow> bool" where
  "gameOver_of (Special w g sr) = g"
| "gameOver_of (Results r) = gameOver r"

text \<open>\<open>specialRule\<close> is \<open>undefined\<close>, which is falsy, in the full results.\<close>

fun specialRule_of :: "results \<Rightarrow> bool" where
  "specialRule_of (Special w g sr) = sr"
| "specialRule_of (Results r) = False"

definition calculateRoundResults :: "DeathGame \<Rightarrow> error + (DeathGame \<times> results)" where
  "calculateRoundResults g =
     (let nums = map snd (roundNumbers g);
          avg = average_of nums;
          t = target_of avg;
          dups = findDuplicates nums
      in if length (getAlivePlayers g) = 2 \<and> 0 \<in> set nums \<and> 100 \<in> set nums
         then (case find (\<lambda>(_, num). num = 100) (roundNumbers g) of
                 None \<Rightarrow> Inl TypeError
               | Some (winnerId, _) \<Rightarrow> Inr (g, Special (players_get g winnerId) True True))
         else
           (let (closestPlayer, closestDistance) =
                  findWinner g dups t (roundNumbers g) (Null, Infinity)
            in case applyPenalties closestPlayer t (roundNumbers g) g of
                 Inl e \<Rightarrow> Inl e
               | Inr g1 \<Rightarrow>
                   (case checkEliminations (players g1) (eliminatedCount g1) of
                      (ps', ec', newEliminations) \<Rightarrow>
                        (let g2 = g1\<lparr>players := ps', eliminatedCount := ec'\<rparr>
                         in Inr (g2, Results
                              \<lparr>numbers = roundNumbers g2, average = avg, target = t,
                               winner = closestPlayer, duplicates = dups,
                               eliminations = newEliminations,
                               gameOver = (length (getAlivePlayers g2) \<le> 1)\<rparr>)))))"

subsection \<open>Sequences of method calls on one game\<close>

text \<open>
  The calls the server makes on a game object: \<open>startRound\<close>, \<open>submitNumber\<close>,
  \<open>calculateRoundResults\<close>, and \<open>game.round++\<close> of the timer callback. An uncaught
  exception ends the run.
\<close>

datatype op = StartRound nat | SubmitNumber socketId rat | CalculateRoundResults | IncrementRound

fun exec :: "op \<Rightarrow> DeathGame \<Rightarrow> error + DeathGame" where
  "exec (StartRound now) g = Inr (fst (startRound now g))"
| "exec (SubmitNumber k n) g = Inr (fst (submitNumber k n g))"
| "exec CalculateRoundResults g =
     (case calculateRoundResults g of Inl e \<Rightarrow> Inl e | Inr (g', r) \<Rightarrow> Inr g')"
| "exec IncrementRound g = Inr (g\<lparr>round' := round' g + 1\<rparr>)"

fun run :: "op list \<Rightarrow> DeathGame \<Rightarrow> error + DeathGame" where
  "run [] g = Inr g"
| "run (x # xs) g = (case exec x g of Inl e \<Rightarrow> Inl e | Inr g' \<Rightarrow> run xs g')"

subsection \<open>Notions used to state the properties\<close>

text \<open>
  The two maps of a game are JavaScript \<open>Map\<close>s, whose keys are distinct; a game is
  well formed when, in addition, every key of \<open>roundNumbers\<close> is a key of \<open>players\<close>.
\<close>

definition wellFormed :: "DeathGame \<Rightarrow> bool" where
  "wellFormed g = (distinct (map fst (players g)) \<and> distinct (map fst (roundNumbers g)) \<and>
           set (map fst (roundNumbers g)) \<subseteq> set (map fst (players g)))"

text \<open>The condition of lines 73 and 74, under which the rule for two players fires.\<close>

definition specialRuleApplies :: "DeathGame \<Rightarrow> bool" where
  "specialRuleApplies g =
     (length (getAlivePlayers g) = 2 \<and> 0 \<in> set (map snd (roundNumbers g)) \<and>
      100 \<in> set (map snd (roundNumbers g)))"

text \<open>
  In the words of the specification: the number of players who submitted a value, and
  a submitted value that may win, that is, one not shared by two or more players while
  at most four players are alive. These are compared with \<open>findDuplicates\<close> and the
  test of line 90.
\<close>

definition timesSubmitted :: "(socketId \<times> rat) list \<Rightarrow> rat \<Rightarrow> nat" where
  "timesSubmitted rn n = length (filter (\<lambda>e. snd e = n) rn)"

definition eligible :: "DeathGame \<Rightarrow> rat \<Rightarrow> bool" where
  "eligible g n =
     (\<not> (2 \<le> timesSubmitted (roundNumbers g) n \<and> length (getAlivePlayers g) \<le> 4))"

definition aliveIds :: "DeathGame \<Rightarrow> socketId list" where
  "aliveIds g = map fst (filter (\<lambda>e. isAlive (snd e)) (players g))"

definition pointsOf :: "DeathGame \<Rightarrow> socketId \<Rightarrow> int option" where
  "pointsOf g k = map_option points (Map_get (players g) k)"

text \<open>The calls made since the last \<open>startRound\<close> (all of them when there was none).\<close>

fun isStartRound :: "op \<Rightarrow> bool" where
  "isStartRound (StartRound now) = True"
| "isStartRound _ = False"

definition sinceStart :: "op list \<Rightarrow> op list" where
  "sinceStart xs = rev (takeWhile (\<lambda>x. \<not> isStartRound x) (rev xs))"

text \<open>The calls up to and including the last \<open>startRound\<close> (none when there was none).\<close>

definition untilStart :: "op list \<Rightarrow> op list" where
  "untilStart xs = rev (dropWhile (\<lambda>x. \<not> isStartRound x) (rev xs))"

section \<open>The socket handlers\<close>

text \<open>
  The server keeps two registries, \<open>games\<close> and \<open>waitingRooms\<close>, keyed by room code.
  Handlers run one at a time, each to completion. The result of \<open>generateRoomCode()\<close>
  and of \<open>Date.now()\<close> are arguments of the events. The timer callback changes only
  the game object it closes over; the model lets it fire at any time on the game
  registered under a room code.
\<close>

record Room =
  host :: socketId
  roomPlayers :: "(socketId \<times> Player) list"

record Server =
  games :: "(string \<times> DeathGame) list"
  waitingRooms :: "(string \<times> Room) list"

definition initialServer :: Server where
  "initialServer = \<lparr>games = [], waitingRooms = []\<rparr>"

datatype message =
    emit_roomCreated string socketId
  | emit_error string
  | emit_joinedRoom string socketId
  | emit_playerJoined "Player list"
  | emit_gameStart RoundInfo
  | emit_roundResults results
  | emit_gameOver playerRef "Player list"
  | emit_roundStart RoundInfo

definition on_createRoom :: "socketId \<Rightarrow> string \<Rightarrow> string \<Rightarrow> Server \<Rightarrow> Server \<times> message list" where
  "on_createRoom sid playerName roomCode srv =
     (let player = new_Player sid playerName
      in (srv\<lparr>waitingRooms :=
                 Map_set roomCode \<lparr>host = sid, roomPlayers = [(sid, player)]\<rparr> (waitingRooms srv)\<rparr>,
          [emit_roomCreated roomCode sid]))"

definition on_joinRoom :: "socketId \<Rightarrow> string \<Rightarrow> string \<Rightarrow> nat \<Rightarrow> Server \<Rightarrow> Server \<times> message list" where
  "on_joinRoom sid roomCode playerName now srv =
     (case Map_get (waitingRooms srv) roomCode of
        None \<Rightarrow> (srv, [emit_error ''Room not found''])
      | Some room \<Rightarrow>
          if length (roomPlayers room) \<ge> 5 then (srv, [emit_error ''Room is full''])
          else
            (let player = new_Player sid playerName;
                 room' = room\<lparr>roomPlayers := Map_set sid player (roomPlayers room)\<rparr>;
                 srv1 = srv\<lparr>waitingRooms := mutate roomCode (\<lambda>_. room') (waitingRooms srv)\<rparr>;
                 out = [emit_joinedRoom roomCode sid, emit_playerJoined (map snd (roomPlayers room'))]
             in if length (roomPlayers room') = 5
                then (case startRound now (new_DeathGame (roomPlayers room')) of
                        (game, roundInfo) \<Rightarrow>
                          (srv1\<lparr>games := Map_set roomCode game (games srv1),
                                waitingRooms := Map_delete roomCode (waitingRooms srv1)\<rparr>,
                           out @ [emit_gameStart roundInfo]))
                else (srv1, out)))"

definition on_submitNumber ::
  "socketId \<Rightarrow> string \<Rightarrow> rat \<Rightarrow> Server \<Rightarrow> error + (Server \<times> message list)"
where
  "on_submitNumber sid roomCode n srv =
     (case Map_get (games srv) roomCode of
        None \<Rightarrow> Inr (srv, [])
      | Some game \<Rightarrow>
          (case submitNumber sid n game of
             (g1, allSubmitted) \<Rightarrow>
               if allSubmitted
               then (case calculateRoundResults g1 of
                       Inl e \<Rightarrow> Inl e
                     | Inr (g2, res) \<Rightarrow>
                         (let srv2 = srv\<lparr>games := mutate roomCode (\<lambda>_. g2) (games srv)\<rparr>
                          in if gameOver_of res
                             then Inr (srv2\<lparr>games := Map_delete roomCode (games srv2)\<rparr>,
                                       [emit_roundResults res,
                                        emit_gameOver (winner_of res) (map snd (players g2))])
                             else Inr (srv2, [emit_roundResults res])))
               else Inr (srv\<lparr>games := mutate roomCode (\<lambda>_. g1) (games srv)\<rparr>, [])))"

text \<open>The callback of \<open>setTimeout\<close>, lines 216 to 220.\<close>

definition on_timer :: "string \<Rightarrow> nat \<Rightarrow> Server \<Rightarrow> Server \<times> message list" where
  "on_timer roomCode now srv =
     (case Map_get (games srv) roomCode of
        None \<Rightarrow> (srv, [])
      | Some game \<Rightarrow>
          (case startRound now (game\<lparr>round' := round' game + 1\<rparr>) of
             (game', roundInfo) \<Rightarrow>
               (srv\<lparr>games := mutate roomCode (\<lambda>_. game') (games srv)\<rparr>,
                [emit_roundStart roundInfo])))"

datatype event =
    CreateRoom socketId string string
  | JoinRoom socketId string string nat
  | SubmitNumberEvent socketId string rat
  | Disconnect socketId
  | TimerFires string nat

fun handle :: "event \<Rightarrow> Server \<Rightarrow> error + (Server \<times> message list)" where
  "handle (CreateRoom sid playerName roomCode) srv = Inr (on_createRoom sid playerName roomCode srv)"
| "handle (JoinRoom sid roomCode playerName now) srv = Inr (on_joinRoom sid roomCode playerName now srv)"
| "handle (SubmitNumberEvent sid roomCode n) srv = on_submitNumber sid roomCode n srv"
| "handle (Disconnect sid) srv = Inr (srv, [])"
| "handle (TimerFires roomCode now) srv = Inr (on_timer roomCode now srv)"

text \<open>A run of the server returns the final registries and everything emitted.\<close>

fun serve :: "event list \<Rightarrow> Server \<Rightarrow> error + (Server \<times> message list)" where
  "serve [] srv = Inr (srv, [])"
| "serve (ev # evs) srv =
     (case handle ev srv of
        Inl e \<Rightarrow> Inl e
      | Inr (srv', out) \<Rightarrow>
          (case serve evs srv' of
             Inl e \<Rightarrow> Inl e
           | Inr (srv'', out') \<Rightarrow> Inr (srv'', out @ out')))"

text \<open>
  The invariant of the registries: a waiting room holds at most four players, under
  distinct socket ids, and every registered game is well formed.
\<close>

definition serverInvariant :: "Server \<Rightarrow> bool" where
  "serverInvariant srv =
     ((\<forall>e \<in> set (waitingRooms srv).
          length (roomPlayers (snd e)) \<le> 4 \<and> distinct (map fst (roomPlayers (snd e)))) \<and>
      (\<forall>e \<in> set (games srv). wellFormed (snd e)))"

section \<open>Example games\<close>

text \<open>
  Games in the middle of a session, on which the theorems below are instantiated. A
  player at \<open>-10\<close> or below has been eliminated.
\<close>

definition mkPlayer :: "socketId \<Rightarrow> int \<Rightarrow> bool \<Rightarrow> Player" where
  "mkPlayer k pts alive = (new_Player k k)\<lparr>points := pts, isAlive := alive\<rparr>"

definition gameTwo :: DeathGame where
  "gameTwo =
     \<lparr>players = [(''a'', mkPlayer ''a'' (-5) True), (''b'', mkPlayer ''b'' (-5) True),
                 (''c'', mkPlayer ''c'' (-10) False), (''d'', mkPlayer ''d'' (-10) False),
                 (''e'', mkPlayer ''e'' (-10) False)],
      round' = 11, eliminatedCount = 3, roundStartTime = Some 0, currentPhase = playing,
      roundNumbers = [(''a'', 0), (''b'', 100)]\<rparr>"

definition gameThree :: DeathGame where
  "gameThree =
     \<lparr>players = [(''a'', mkPlayer ''a'' (-8) True), (''b'', mkPlayer ''b'' (-7) True),
                 (''c'', mkPlayer ''c'' (-5) True), (''d'', mkPlayer ''d'' (-10) False),
                 (''e'', mkPlayer ''e'' (-10) False)],
      round' = 11, eliminatedCount = 2, roundStartTime = Some 0, currentPhase = playing,
      roundNumbers = [(''a'', 4), (''b'', 4), (''c'', 7)]\<rparr>"

definition gameFour :: DeathGame where
  "gameFour =
     \<lparr>players = [(''a'', mkPlayer ''a'' (-7) True), (''b'', mkPlayer ''b'' (-8) True),
                 (''c'', mkPlayer ''c'' (-9) True), (''d'', mkPlayer ''d'' (-6) True),
                 (''e'', mkPlayer ''e'' (-10) False)],
      round' = 11, eliminatedCount = 1, roundStartTime = Some 0, currentPhase = playing,
      roundNumbers = [(''a'', 10), (''b'', 20), (''c'', 10), (''d'', 20)]\<rparr>"

text \<open>
  A fresh game of five players, and rounds played the way the handlers play them: the
  round starts, the five players submit, the last submission triggers the resolution,
  and the timer increments the round. In \<open>playRound w\<close> the player \<open>w\<close> submits 80 and
  the others 100, so that \<open>w\<close> wins while five players are alive.
\<close>

definition fivePlayers :: "int \<Rightarrow> int \<Rightarrow> int \<Rightarrow> int \<Rightarrow> int \<Rightarrow> (socketId \<times> Player) list" where
  "fivePlayers pa pb pc pd pe =
     [(''a'', mkPlayer ''a'' pa True), (''b'', mkPlayer ''b'' pb True),
      (''c'', mkPlayer ''c'' pc True), (''d'', mkPlayer ''d'' pd True),
      (''e'', mkPlayer ''e'' pe True)]"

definition playRound :: "socketId \<Rightarrow> op list" where
  "playRound w =
     StartRound 0 #
     map (\<lambda>k. SubmitNumber k (if k = w then 80 else 100)) [''a'', ''b'', ''c'', ''d'', ''e''] @
     [CalculateRoundResults]"

definition afterRoundOne :: DeathGame where
  "afterRoundOne =
     \<lparr>players = fivePlayers 0 (-1) (-1) (-1) (-1), round' = 1, eliminatedCount = 0,
      roundStartTime = Some 0, currentPhase = playing,
      roundNumbers = [(''a'', 80), (''b'', 100), (''c'', 100), (''d'', 100), (''e'', 100)]\<rparr>"

text \<open>
  Ten rounds after which only \<open>e\<close> is eliminated, and ten rounds, won alternately by
  \<open>a\<close> and \<open>b\<close>, followed by the submissions 0 and 100 of the two players left.
\<close>

definition tenRounds :: "op list" where
  "tenRounds =
     concat (map (\<lambda>w. playRound w @ [IncrementRound])
                 [''a'', ''a'', ''a'', ''a'', ''a'', ''a'', ''a'', ''b'', ''c'']) @
     playRound ''d''"

definition afterTenRounds :: DeathGame where
  "afterTenRounds =
     \<lparr>players = [(''a'', mkPlayer ''a'' (-3) True), (''b'', mkPlayer ''b'' (-9) True),
                 (''c'', mkPlayer ''c'' (-9) True), (''d'', mkPlayer ''d'' (-9) True),
                 (''e'', mkPlayer ''e'' (-10) False)],
      round' = 10, eliminatedCount = 1, roundStartTime = Some 0, currentPhase = playing,
      roundNumbers = [(''a'', 100), (''b'', 100), (''c'', 100), (''d'', 80), (''e'', 100)]\<rparr>"

definition roundsToTwo :: "op list" where
  "roundsToTwo =
     concat (map (\<lambda>w. playRound w @ [IncrementRound])
                 [''a'', ''b'', ''a'', ''b'', ''a'', ''b'', ''a'', ''b'', ''a'', ''b'']) @
     [StartRound 0, SubmitNumber ''a'' 0, SubmitNumber ''b'' 100]"

text \<open>
  A first round in which two players submit \<open>2^1023\<close>, whose sum is beyond the largest
  double, and what its resolution returns.
\<close>

definition huge :: rat where
  "huge = 2 ^ 1023"

definition overflowRound :: "op list" where
  "overflowRound =
     [StartRound 0, SubmitNumber ''a'' huge, SubmitNumber ''b'' huge,
      SubmitNumber ''c'' 0, SubmitNumber ''d'' 0, SubmitNumber ''e'' 0, CalculateRoundResults]"

definition gameOverflow :: DeathGame where
  "gameOverflow =
     \<lparr>players = fivePlayers 0 0 0 0 0, round' = 1, eliminatedCount = 0,
      roundStartTime = Some 0, currentPhase = playing,
      roundNumbers = [(''a'', huge), (''b'', huge), (''c'', 0), (''d'', 0), (''e'', 0)]\<rparr>"

definition afterOverflow :: DeathGame where
  "afterOverflow = gameOverflow\<lparr>players := fivePlayers (-1) (-1) (-1) (-1) (-1)\<rparr>"

definition overflowResults :: RoundResults where
  "overflowResults =
     \<lparr>numbers = roundNumbers gameOverflow, average = Infinity, target = Infinity,
      winner = Null, duplicates = [huge, 0, 0], eliminations = [], gameOver = False\<rparr>"

text \<open>
  One socket creates a room and five more try to join it: the fourth join fills the
  room, which becomes a game.
\<close>

definition sixJoins :: "event list" where
  "sixJoins =
     [CreateRoom ''s1'' ''Ann'' ''ROOM01'',
      JoinRoom ''s2'' ''ROOM01'' ''Bob'' 0,
      JoinRoom ''s3'' ''ROOM01'' ''Cem'' 0,
      JoinRoom ''s4'' ''ROOM01'' ''Dee'' 0,
      JoinRoom ''s5'' ''ROOM01'' ''Eve'' 0,
      JoinRoom ''s6'' ''ROOM01'' ''Fay'' 0]"

section \<open>Properties of the arithmetic\<close>

text \<open>
  \<open>exponentOf\<close> is the binary exponent, and \<open>rnd\<close> returns a multiple of the unit in the
  last place that is at most half a unit away from its argument.
\<close>

lemma bitLength_pos: "0 < n \<Longrightarrow> 1 \<le> bitLength n"
  by (induction n rule: bitLength.induct) (simp add: bitLength.simps)

lemma bitLength_bounds:
  "0 < n \<Longrightarrow> 2 ^ nat (bitLength n - 1) \<le> n \<and> n < 2 ^ nat (bitLength n)"
proof (induction n rule: bitLength.induct)
  case (1 n)
  show ?case
  proof (cases "n = 1")
    case True
    then show ?thesis by (simp add: bitLength.simps)
  next
    case False
    with 1 have h: "0 < n div 2" by simp
    from 1 h have ih: "2 ^ nat (bitLength (n div 2) - 1) \<le> n div 2 \<and> n div 2 < 2 ^ nat (bitLength (n div 2))"
      by simp
    have b: "bitLength n = 1 + bitLength (n div 2)" using 1(2) by (subst bitLength.simps) simp
    have p: "1 \<le> bitLength (n div 2)" using h by (rule bitLength_pos)
    have e1: "nat (bitLength n - 1) = Suc (nat (bitLength (n div 2) - 1))" using b p by simp
    have e2: "nat (bitLength n) = Suc (nat (bitLength (n div 2)))" using b p by simp
    from ih show ?thesis unfolding e1 e2 by simp linarith
  qed
qed


lemma exponentOf_bounds:
  assumes "0 < q"
  shows "pow2 (exponentOf q) \<le> q \<and> q < pow2 (exponentOf q + 1)"
proof (cases "1 \<le> q")
  case True
  define f where "f = \<lfloor>q\<rfloor>"
  have f1: "1 \<le> f" using True by (simp add: f_def le_floor_iff)
  then have f0: "0 < f" by simp
  have bp: "1 \<le> bitLength f" using f0 by (rule bitLength_pos)
  from bitLength_bounds [OF f0]
  have lo: "2 ^ nat (bitLength f - 1) \<le> f" and hi: "f < 2 ^ nat (bitLength f)" by simp_all
  have e: "exponentOf q = bitLength f - 1" using True by (simp add: exponentOf_def f_def)
  have "(of_int (2 ^ nat (bitLength f - 1)) :: rat) \<le> of_int f" using lo by (simp only: of_int_le_iff)
  also have "\<dots> \<le> q" unfolding f_def by linarith
  finally have 1: "pow2 (exponentOf q) \<le> q" using bp by (simp add: e pow2_def)
  have "f + 1 \<le> 2 ^ nat (bitLength f)" using hi by simp
  then have "(of_int (f + 1) :: rat) \<le> of_int (2 ^ nat (bitLength f))" by (simp only: of_int_le_iff)
  moreover have "q < of_int (f + 1)" unfolding f_def by linarith
  ultimately have "q < of_int (2 ^ nat (bitLength f))" by simp
  then have 2: "q < pow2 (exponentOf q + 1)" using bp by (simp add: e pow2_def)
  from 1 2 show ?thesis by simp
next
  case False
  define m where "m = \<lceil>1 / q\<rceil> - 1"
  define b where "b = bitLength m"
  have "1 < 1 / q" using False assms by simp
  then have m0: "0 < m" by (simp add: m_def less_ceiling_iff)
  have bp: "1 \<le> b" unfolding b_def using m0 by (rule bitLength_pos)
  from bitLength_bounds [OF m0]
  have lo: "2 ^ nat (b - 1) \<le> m" and hi: "m < 2 ^ nat b" by (simp_all add: b_def)
  have e: "exponentOf q = - b" using False by (simp add: exponentOf_def m_def b_def)
  have up: "1 / q \<le> of_int (m + 1)" unfolding m_def by linarith
  have dn: "of_int m < 1 / q" unfolding m_def by linarith
  have "m + 1 \<le> 2 ^ nat b" using hi by simp
  then have "(of_int (m + 1) :: rat) \<le> of_int (2 ^ nat b)" by (simp only: of_int_le_iff)
  with up have "1 / q \<le> 2 ^ nat b" by simp
  then have "1 \<le> 2 ^ nat b * q" using assms by (simp add: pos_divide_le_eq)
  then have "1 / 2 ^ nat b \<le> q" by (simp add: pos_divide_le_eq mult.commute)
  then have 1: "pow2 (exponentOf q) \<le> q" using bp by (simp add: e pow2_def)
  have "(of_int (2 ^ nat (b - 1)) :: rat) \<le> of_int m" using lo by (simp only: of_int_le_iff)
  then have "(2 :: rat) ^ nat (b - 1) \<le> of_int m" by simp
  with dn have "(2 :: rat) ^ nat (b - 1) < 1 / q" by linarith
  then have "2 ^ nat (b - 1) * q < 1" using assms by (simp add: pos_less_divide_eq)
  then have lt: "q < 1 / 2 ^ nat (b - 1)" by (simp add: pos_less_divide_eq mult.commute)
  have 2: "q < pow2 (exponentOf q + 1)"
  proof (cases "b = 1")
    case True
    with lt show ?thesis by (simp add: e pow2_def)
  next
    case False
    with bp have "\<not> 0 \<le> - b + 1" "nat (- (- b + 1)) = nat (b - 1)" by simp_all
    with lt show ?thesis by (simp add: e pow2_def)
  qed
  from 1 2 show ?thesis by simp
qed

lemma roundHalfEven_nearest: "\<bar>of_int (roundHalfEven m) - m\<bar> \<le> 1 / 2"
proof -
  have "of_int \<lfloor>m\<rfloor> \<le> m" "m < of_int \<lfloor>m\<rfloor> + 1" by linarith+
  then show ?thesis by (auto simp: roundHalfEven_def Let_def)
qed


lemma pow2_pos: "0 < pow2 k"
  by (simp add: pow2_def)

lemma rnd_nearest:
  assumes "q \<noteq> 0" and "rnd q = Num v"
  shows "\<exists>m. v = of_int m * pow2 (max (exponentOf \<bar>q\<bar>) (- 1022) - 52) \<and>
             \<bar>v - q\<bar> \<le> pow2 (max (exponentOf \<bar>q\<bar>) (- 1022) - 52) / 2"
proof -
  define ulp where "ulp = pow2 (max (exponentOf \<bar>q\<bar>) (- 1022) - 52)"
  define r where "r = roundHalfEven (\<bar>q\<bar> / ulp)"
  have u: "0 < ulp" unfolding ulp_def by (rule pow2_pos)
  have "\<bar>of_int r - \<bar>q\<bar> / ulp\<bar> \<le> 1 / 2" unfolding r_def by (rule roundHalfEven_nearest)
  then have "\<bar>of_int r - \<bar>q\<bar> / ulp\<bar> * ulp \<le> 1 / 2 * ulp"
    using u by (simp only: mult_le_cancel_right_pos)
  moreover have "\<bar>of_int r - \<bar>q\<bar> / ulp\<bar> * ulp = \<bar>of_int r * ulp - \<bar>q\<bar>\<bar>"
  proof -
    have "\<bar>of_int r - \<bar>q\<bar> / ulp\<bar> * ulp = \<bar>(of_int r - \<bar>q\<bar> / ulp) * ulp\<bar>"
      using u by (simp add: abs_mult)
    moreover have "(of_int r - \<bar>q\<bar> / ulp) * ulp = of_int r * ulp - \<bar>q\<bar>"
      using u by (simp add: left_diff_distrib)
    ultimately show ?thesis by simp
  qed
  ultimately have near: "\<bar>of_int r * ulp - \<bar>q\<bar>\<bar> \<le> ulp / 2" by simp
  from assms have v: "v = (if 0 < q then of_int r * ulp else - (of_int r * ulp))"
    by (simp add: rnd_def Let_def ulp_def r_def split: if_splits)
  show ?thesis
  proof (cases "0 < q")
    case True
    with v near have "v = of_int r * ulp" "\<bar>v - q\<bar> \<le> ulp / 2" by simp_all
    then show ?thesis unfolding ulp_def by blast
  next
    case False
    then have "\<bar>q\<bar> = - q" by simp
    with near have "\<bar>of_int r * ulp + q\<bar> \<le> ulp / 2" by simp
    then have "\<bar>- (of_int r * ulp) - q\<bar> \<le> ulp / 2" by (simp only: abs_minus_commute [of "- (of_int r * ulp)" q] diff_minus_eq_add add.commute)
    with v False have "v = of_int (- r) * ulp" "\<bar>v - q\<bar> \<le> ulp / 2" by simp_all
    then show ?thesis unfolding ulp_def by blast
  qed
qed

lemma floor_rat_numeral [simp]: "\<lfloor>numeral a / numeral b :: rat\<rfloor> = numeral a div numeral b"
  using floor_divide_of_int_eq [of "numeral a" "numeral b", where ?'a = rat] by simp

lemma ceiling_rat_numeral [simp]:
  "\<lceil>numeral a / numeral b :: rat\<rceil> = - ((- numeral a) div numeral b)"
  using floor_divide_of_int_eq [of "- numeral a" "numeral b", where ?'a = rat]
  by (simp add: ceiling_def)

lemmas rnd_eval = rnd_def exponentOf_def bitLength.simps pow2_def roundHalfEven_def Let_def

lemma js_less_irrefl: "\<not> js_less a a"
  by (cases a) auto

lemma js_less_trans: "js_less a b \<Longrightarrow> js_less b c \<Longrightarrow> js_less a c"
  by (cases a; cases b; cases c) auto

text \<open>The literal \<open>0.8\<close> as a double.\<close>

lemma point_eight: "rnd (4 / 5) = Num (3602879701896397 / 4503599627370496)"
  by (simp add: rnd_eval split del: if_split)

section \<open>Properties of the maps and of the three loops\<close>

lemma map_fst_mutate [simp]: "map fst (mutate k f m) = map fst m"
  by (induction m) auto

lemma map_of_mutate:
  "map_of (mutate k f m) k' = (if k' = k then map_option f (map_of m k') else map_of m k')"
  by (induction m) auto

lemma alive_mutate_points [simp]:
  "map (\<lambda>e. isAlive (snd e)) (mutate k (\<lambda>p. p\<lparr>points := h p\<rparr>) m) = map (\<lambda>e. isAlive (snd e)) m"
  by (induction m) auto

lemma map_fst_Map_set:
  "map fst (Map_set k v m) = (if k \<in> set (map fst m) then map fst m else map fst m @ [k])"
  by (induction m) force+

lemma set_fst_Map_set [simp]: "fst ` set (Map_set k v m) = insert k (fst ` set m)"
proof -
  have "set (map fst (Map_set k v m)) = insert k (set (map fst m))"
    unfolding map_fst_Map_set by auto
  then show ?thesis by simp
qed

lemma distinct_Map_set: "distinct (map fst m) \<Longrightarrow> distinct (map fst (Map_set k v m))"
  unfolding map_fst_Map_set by auto

lemma alive_count_cong:
  "map (\<lambda>e. isAlive (snd e)) ps = map (\<lambda>e. isAlive (snd e)) qs \<Longrightarrow>
   length (filter isAlive (map snd ps)) = length (filter isAlive (map snd qs))"
proof -
  assume h: "map (\<lambda>e. isAlive (snd e)) ps = map (\<lambda>e. isAlive (snd e)) qs"
  have "\<And>xs. length (filter isAlive (map snd xs)) = length (filter id (map (\<lambda>e. isAlive (snd e)) xs))"
    by (simp add: filter_map comp_def)
  from this [of ps] this [of qs] show ?thesis by (simp only: h)
qed

lemma getAlive_points_update [simp]:
  "length (getAlivePlayers (g\<lparr>players := mutate k (\<lambda>p. p\<lparr>points := h p\<rparr>) (players g)\<rparr>))
     = length (getAlivePlayers g)"
  unfolding getAlivePlayers_def by (rule alive_count_cong) simp

lemma players_get_points_update [simp]:
  "players_get (g\<lparr>players := mutate k f (players g)\<rparr>) k' = players_get g k'"
  by (simp add: players_get_def Map_has_def)

lemma players_get_Ref: "k \<in> set (map fst (players g)) \<Longrightarrow> players_get g k = Ref k"
  by (simp add: players_get_def Map_has_def)

text \<open>What the penalty loop does to the game: it returns, and only points change.\<close>

lemma applyPenalties_frame:
  "set (map fst rn) \<subseteq> set (map fst (players g)) \<Longrightarrow>
   \<exists>g'. applyPenalties cp t rn g = Inr g' \<and> g' = g\<lparr>players := players g'\<rparr> \<and>
        map fst (players g') = map fst (players g) \<and>
        map (\<lambda>e. isAlive (snd e)) (players g') = map (\<lambda>e. isAlive (snd e)) (players g)"
proof (induction rn arbitrary: g)
  case Nil
  then show ?case by simp
next
  case (Cons e rn)
  obtain k n where e: "e = (k, n)" by (cases e)
  from Cons.prems e have kin: "k \<in> set (map fst (players g))"
    and sub: "set (map fst rn) \<subseteq> set (map fst (players g))" by auto
  have ref: "players_get g k = Ref k" using kin by (rule players_get_Ref)
  show ?case
  proof (cases "Ref k = cp")
    case True
    with Cons.IH [OF sub] e ref show ?thesis by simp
  next
    case False
    define pen :: int where
      "pen = (if length (getAlivePlayers g) = 3 \<and> Num n = t then - 1 * 2 else - 1)"
    define g1 where "g1 = g\<lparr>players := mutate k (\<lambda>p. p\<lparr>points := points p + pen\<rparr>) (players g)\<rparr>"
    have step: "applyPenalties cp t (e # rn) g = applyPenalties cp t rn g1"
      using False e ref by (simp add: g1_def pen_def Let_def)
    have "set (map fst rn) \<subseteq> set (map fst (players g1))" using sub by (simp add: g1_def)
    from Cons.IH [OF this] obtain g' where
      g': "applyPenalties cp t rn g1 = Inr g'" "g' = g1\<lparr>players := players g'\<rparr>"
          "map fst (players g') = map fst (players g1)"
          "map (\<lambda>e. isAlive (snd e)) (players g') = map (\<lambda>e. isAlive (snd e)) (players g1)" by blast
    have "g' = g\<lparr>players := players g'\<rparr>" using g'(2) by (simp add: g1_def)
    moreover have "map fst (players g') = map fst (players g)" using g'(3) by (simp add: g1_def)
    moreover have "map (\<lambda>e. isAlive (snd e)) (players g') = map (\<lambda>e. isAlive (snd e)) (players g)"
      using g'(4) by (simp add: g1_def)
    ultimately show ?thesis using step g'(1) by simp
  qed
qed

lemma applyPenalties_points:
  "distinct (map fst rn) \<Longrightarrow> set (map fst rn) \<subseteq> set (map fst (players g)) \<Longrightarrow>
   applyPenalties cp t rn g = Inr g' \<Longrightarrow>
   map_of (players g') k =
     map_option (\<lambda>p. p\<lparr>points := points p -
        (case map_of rn k of None \<Rightarrow> 0
         | Some n \<Rightarrow> if Ref k = cp then 0
                     else if length (getAlivePlayers g) = 3 \<and> Num n = t then 2 else 1)\<rparr>)
       (map_of (players g) k)"
proof (induction rn arbitrary: g)
  case Nil
  then show ?case by (simp add: option.map_ident)
next
  case (Cons e rn)
  obtain k0 n0 where e: "e = (k0, n0)" by (cases e)
  from Cons.prems e have kin: "k0 \<in> set (map fst (players g))"
    and sub: "set (map fst rn) \<subseteq> set (map fst (players g))"
    and dist: "distinct (map fst rn)" and fresh: "k0 \<notin> set (map fst rn)" by auto
  have ref: "players_get g k0 = Ref k0" using kin by (rule players_get_Ref)
  have none: "map_of rn k0 = None" using fresh by (simp add: map_of_eq_None_iff)
  show ?case
  proof (cases "Ref k0 = cp")
    case True
    then have step: "applyPenalties cp t rn g = Inr g'" using Cons.prems(3) e ref by simp
    from Cons.IH [OF dist sub step] show ?thesis
      using e True none by (cases "k = k0") (auto simp: option.map_ident)
  next
    case False
    define pen :: int where
      "pen = (if length (getAlivePlayers g) = 3 \<and> Num n0 = t then - 1 * 2 else - 1)"
    define g1 where "g1 = g\<lparr>players := mutate k0 (\<lambda>p. p\<lparr>points := points p + pen\<rparr>) (players g)\<rparr>"
    have step: "applyPenalties cp t rn g1 = Inr g'"
      using Cons.prems(3) False e ref by (simp add: g1_def pen_def Let_def)
    have sub1: "set (map fst rn) \<subseteq> set (map fst (players g1))" using sub by (simp add: g1_def)
    have alive1: "length (getAlivePlayers g1) = length (getAlivePlayers g)" by (simp add: g1_def)
    note ih = Cons.IH [OF dist sub1 step, unfolded alive1]
    show ?thesis
    proof (cases "k = k0")
      case True
      then show ?thesis using ih none e False
        by (simp add: g1_def map_of_mutate pen_def option.map_comp comp_def)
    next
      case False
      then show ?thesis using ih e by (simp add: g1_def map_of_mutate)
    qed
  qed
qed

text \<open>The elimination loop, as a map and a count.\<close>

lemma checkEliminations_eq:
  "checkEliminations ps ec =
     (map (\<lambda>(k, p). (k, if isAlive p \<and> points p \<le> -10 then p\<lparr>isAlive := False\<rparr> else p)) ps,
      ec + length (filter (\<lambda>(k, p). isAlive p \<and> points p \<le> -10) ps),
      map fst (filter (\<lambda>(k, p). isAlive p \<and> points p \<le> -10) ps))"
  by (induction ps arbitrary: ec) (auto split: prod.splits)

lemma indexOf_notin: "x \<notin> set xs \<Longrightarrow> indexOf xs x = -1"
  by (induction xs) (auto simp: Let_def)

lemma indexOf_in: "x \<in> set xs \<Longrightarrow> 0 \<le> indexOf xs x \<and> indexOf xs x < int (length xs)"
  by (induction xs) (auto simp: Let_def)

lemma indexOf_append:
  "indexOf (pre @ x # xs) x = (if x \<in> set pre then indexOf pre x else int (length pre))"
proof (induction pre)
  case Nil
  then show ?case by simp
next
  case (Cons y pre)
  show ?case
  proof (cases "x \<in> set pre")
    case True
    with Cons indexOf_in [OF True] show ?thesis by (auto simp: Let_def)
  next
    case False
    with Cons show ?thesis by (auto simp: Let_def)
  qed
qed

lemma first_occurrence: "indexOf (pre @ x # xs) x \<noteq> int (length pre) \<longleftrightarrow> x \<in> set pre"
  using indexOf_in [of x pre] by (auto simp: indexOf_append)

lemma findDuplicates_from:
  "x \<in> set (map fst (filter (\<lambda>(num, index). indexOf (pre @ xs) num \<noteq> int index)
                      (zip xs [length pre ..< length pre + length xs])))
   \<longleftrightarrow> x \<in> set xs \<and> (x \<in> set pre \<or> 2 \<le> length (filter (\<lambda>z. z = x) xs))"
proof (induction xs arbitrary: pre)
  case Nil
  then show ?case by simp
next
  case (Cons y ys)
  have upt: "[length pre ..< length pre + length (y # ys)]
               = length pre # [Suc (length pre) ..< Suc (length pre + length ys)]"
    by (subst upt_rec) simp
  have mem: "x \<in> set ys \<longleftrightarrow> 1 \<le> length (filter (\<lambda>z. z = x) ys)"
    by (induction ys) auto
  have ih: "x \<in> set (map fst (filter (\<lambda>(num, index). indexOf (pre @ y # ys) num \<noteq> int index)
                      (zip ys [Suc (length pre) ..< Suc (length pre + length ys)])))
     \<longleftrightarrow> x \<in> set ys \<and> (x \<in> set pre \<or> x = y \<or> 2 \<le> length (filter (\<lambda>z. z = x) ys))"
    using Cons.IH [of "pre @ [y]"] by auto
  have head: "indexOf (pre @ y # ys) y \<noteq> int (length pre) \<longleftrightarrow> y \<in> set pre"
    by (rule first_occurrence)
  show ?case
  proof (cases "x = y")
    case True
    then show ?thesis unfolding upt using ih mem head by auto
  next
    case False
    then show ?thesis unfolding upt using ih head by auto
  qed
qed

text \<open>A value is in \<open>duplicates\<close> exactly when two or more players submitted it.\<close>

lemma findDuplicates_iff:
  "n \<in> set (findDuplicates (map snd rn)) \<longleftrightarrow> 2 \<le> timesSubmitted rn n"
proof -
  have "timesSubmitted rn n = length (filter (\<lambda>z. z = n) (map snd rn))"
    by (simp add: timesSubmitted_def filter_map comp_def)
  moreover have "n \<in> set (map snd rn)" if "2 \<le> length (filter (\<lambda>z. z = n) (map snd rn))"
  proof (rule ccontr)
    assume "n \<notin> set (map snd rn)"
    then have "filter (\<lambda>z. z = n) (map snd rn) = []" by (auto simp: filter_empty_conv)
    with that show False by simp
  qed
  ultimately show ?thesis
    using findDuplicates_from [of n "[]" "map snd rn"]
    by (auto simp: findDuplicates_def)
qed

text \<open>The winner loop: the accumulator survives, or an entry strictly closer replaces it.\<close>

lemma findWinner_spec:
  "findWinner g dups t rn (cp, cd) = (w, wd) \<Longrightarrow>
   (w = cp \<and> wd = cd \<and>
      (\<forall>(k, n) \<in> set rn. \<not> (n \<in> set dups \<and> length (getAlivePlayers g) \<le> 4)
          \<longrightarrow> \<not> js_less (distance_to n t) cd)) \<or>
   (\<exists>(k, n) \<in> set rn. \<not> (n \<in> set dups \<and> length (getAlivePlayers g) \<le> 4) \<and>
      w = players_get g k \<and> wd = distance_to n t \<and> js_less wd cd \<and>
      (\<forall>(k', n') \<in> set rn. \<not> (n' \<in> set dups \<and> length (getAlivePlayers g) \<le> 4)
          \<longrightarrow> \<not> js_less (distance_to n' t) (distance_to n t)))"
proof (induction rn arbitrary: cp cd)
  case Nil
  then show ?case by simp
next
  case (Cons e rn)
  obtain k0 n0 where e: "e = (k0, n0)" by (cases e)
  let ?ex = "\<lambda>n. n \<in> set dups \<and> length (getAlivePlayers g) \<le> 4"
  let ?d = "\<lambda>n. distance_to n t"
  show ?case
  proof (cases "?ex n0")
    case True
    then have "findWinner g dups t rn (cp, cd) = (w, wd)"
      using Cons.prems e by simp
    from Cons.IH [OF this] show ?thesis using True e by auto
  next
    case elig: False
    show ?thesis
    proof (cases "js_less (?d n0) cd")
      case True
      then have run: "findWinner g dups t rn (players_get g k0, ?d n0) = (w, wd)"
        using Cons.prems e elig by simp
      from Cons.IH [OF run]
      show ?thesis
      proof
        assume a: "w = players_get g k0 \<and> wd = ?d n0 \<and>
          (\<forall>(k, n) \<in> set rn. \<not> ?ex n \<longrightarrow> \<not> js_less (?d n) (?d n0))"
        have "\<exists>(k, n) \<in> set (e # rn). \<not> ?ex n \<and> w = players_get g k \<and> wd = ?d n \<and>
                js_less wd cd \<and>
                (\<forall>(k', n') \<in> set (e # rn). \<not> ?ex n' \<longrightarrow> \<not> js_less (?d n') (?d n))"
          apply (rule bexI [of _ "(k0, n0)"])
          using a elig True e js_less_irrefl by auto
        then show ?thesis ..
      next
        assume "\<exists>(k, n) \<in> set rn. \<not> ?ex n \<and> w = players_get g k \<and> wd = ?d n \<and>
           js_less wd (?d n0) \<and>
           (\<forall>(k', n') \<in> set rn. \<not> ?ex n' \<longrightarrow> \<not> js_less (?d n') (?d n))"
        then obtain k n where kn: "(k, n) \<in> set rn" "\<not> ?ex n" "w = players_get g k"
          "wd = ?d n" "js_less (?d n) (?d n0)"
          "\<forall>(k', n') \<in> set rn. \<not> ?ex n' \<longrightarrow> \<not> js_less (?d n') (?d n)" by auto
        have less: "js_less wd cd" using kn(4,5) True js_less_trans by blast
        have first: "\<not> js_less (?d n0) (?d n)"
          using kn(5) js_less_trans js_less_irrefl by blast
        have "\<exists>(k, n) \<in> set (e # rn). \<not> ?ex n \<and> w = players_get g k \<and> wd = ?d n \<and>
                js_less wd cd \<and>
                (\<forall>(k', n') \<in> set (e # rn). \<not> ?ex n' \<longrightarrow> \<not> js_less (?d n') (?d n))"
          apply (rule bexI [of _ "(k, n)"])
          using kn less first e by auto
        then show ?thesis ..
      qed
    next
      case False
      then have run: "findWinner g dups t rn (cp, cd) = (w, wd)"
        using Cons.prems e elig by simp
      from Cons.IH [OF run]
      show ?thesis
      proof
        assume "w = cp \<and> wd = cd \<and>
          (\<forall>(k, n) \<in> set rn. \<not> ?ex n \<longrightarrow> \<not> js_less (?d n) cd)"
        then show ?thesis using False e by auto
      next
        assume "\<exists>(k, n) \<in> set rn. \<not> ?ex n \<and> w = players_get g k \<and> wd = ?d n \<and>
           js_less wd cd \<and>
           (\<forall>(k', n') \<in> set rn. \<not> ?ex n' \<longrightarrow> \<not> js_less (?d n') (?d n))"
        then obtain k n where kn: "(k, n) \<in> set rn" "\<not> ?ex n" "w = players_get g k"
          "wd = ?d n" "js_less wd cd"
          "\<forall>(k', n') \<in> set rn. \<not> ?ex n' \<longrightarrow> \<not> js_less (?d n') (?d n)" by auto
        have first: "\<not> js_less (?d n0) (?d n)"
          using kn(4,5) False js_less_trans by blast
        have "\<exists>(k, n) \<in> set (e # rn). \<not> ?ex n \<and> w = players_get g k \<and> wd = ?d n \<and>
                js_less wd cd \<and>
                (\<forall>(k', n') \<in> set (e # rn). \<not> ?ex n' \<longrightarrow> \<not> js_less (?d n') (?d n))"
          apply (rule bexI [of _ "(k, n)"])
          using kn first e by auto
        then show ?thesis ..
      qed
    qed
  qed
qed

lemma map_of_map_snd:
  "map_of (map (\<lambda>(k, p). (k, f p)) ps) k = map_option f (map_of ps k)"
  by (induction ps) auto

text \<open>
  The resolution outside the rule for two players: the winner loop, the penalty loop
  and the elimination loop, one after the other.
\<close>

lemma calculateRoundResults_normal:
  assumes "\<not> specialRuleApplies g"
    and "set (map fst (roundNumbers g)) \<subseteq> set (map fst (players g))"
  obtains g1 g2 r wd where
    "findWinner g (findDuplicates (map snd (roundNumbers g)))
        (target_of (average_of (map snd (roundNumbers g)))) (roundNumbers g) (Null, Infinity)
       = (winner r, wd)"
    and "applyPenalties (winner r) (target r) (roundNumbers g) g = Inr g1"
    and "g2 = g1\<lparr>players :=
                   map (\<lambda>(k, p). (k, if isAlive p \<and> points p \<le> -10 then p\<lparr>isAlive := False\<rparr> else p))
                       (players g1),
                 eliminatedCount := eliminatedCount g1 +
                   length (filter (\<lambda>(k, p). isAlive p \<and> points p \<le> -10) (players g1))\<rparr>"
    and "calculateRoundResults g = Inr (g2, Results r)"
    and "average r = average_of (map snd (roundNumbers g))"
    and "target r = target_of (average r)"
    and "duplicates r = findDuplicates (map snd (roundNumbers g))"
    and "numbers r = roundNumbers g"
    and "eliminations r = map fst (filter (\<lambda>(k, p). isAlive p \<and> points p \<le> -10) (players g1))"
    and "gameOver r = (length (getAlivePlayers g2) \<le> 1)"
proof -
  let ?nums = "map snd (roundNumbers g)"
  let ?t = "target_of (average_of ?nums)"
  obtain w wd where fw: "findWinner g (findDuplicates ?nums) ?t (roundNumbers g) (Null, Infinity) = (w, wd)"
    by (cases "findWinner g (findDuplicates ?nums) ?t (roundNumbers g) (Null, Infinity)")
  from applyPenalties_frame [OF assms(2), of w ?t] obtain g1 where
    ap: "applyPenalties w ?t (roundNumbers g) g = Inr g1" and fr: "g1 = g\<lparr>players := players g1\<rparr>"
    by blast
  have rn1: "roundNumbers g1 = roundNumbers g"
    by (subst fr) simp
  let ?el = "\<lambda>(k, p). isAlive p \<and> points p \<le> -10"
  define g2 where "g2 = g1\<lparr>players :=
       map (\<lambda>(k, p). (k, if isAlive p \<and> points p \<le> -10 then p\<lparr>isAlive := False\<rparr> else p)) (players g1),
     eliminatedCount := eliminatedCount g1 + length (filter ?el (players g1))\<rparr>"
  define r where "r = \<lparr>numbers = roundNumbers g, average = average_of ?nums, target = ?t,
     winner = w, duplicates = findDuplicates ?nums,
     eliminations = map fst (filter ?el (players g1)),
     gameOver = (length (getAlivePlayers g2) \<le> 1)\<rparr>"
  have nospecial: "\<not> (length (getAlivePlayers g) = 2 \<and> 0 \<in> set ?nums \<and> 100 \<in> set ?nums)"
    using assms(1) by (simp add: specialRuleApplies_def)
  have "calculateRoundResults g = Inr (g2, Results r)"
    unfolding calculateRoundResults_def Let_def
    apply (simp only: nospecial if_False fw split ap sum.case checkEliminations_eq)
    apply (simp add: g2_def r_def rn1)
    done
  then show ?thesis
    using that [of r wd g1 g2] fw ap by (simp add: r_def g2_def)
qed

lemma calculateRoundResults_special:
  assumes "specialRuleApplies g"
  shows "calculateRoundResults g =
     (case find (\<lambda>(_, num). num = 100) (roundNumbers g) of
        None \<Rightarrow> Inl TypeError
      | Some (winnerId, _) \<Rightarrow> Inr (g, Special (players_get g winnerId) True True))"
proof -
  have c: "(length (getAlivePlayers g) = 2 \<and> 0 \<in> set (map snd (roundNumbers g)) \<and>
        100 \<in> set (map snd (roundNumbers g))) = True"
    using assms by (simp add: specialRuleApplies_def)
  show ?thesis
    unfolding calculateRoundResults_def Let_def by (simp only: c if_True)
qed

lemma calculateRoundResults_Results:
  "calculateRoundResults g = Inr (g', Results r) \<Longrightarrow> \<not> specialRuleApplies g"
proof
  assume "specialRuleApplies g" and r: "calculateRoundResults g = Inr (g', Results r)"
  from calculateRoundResults_special [OF this(1)] r show False
    by (auto split: option.splits prod.splits)
qed

lemmas example_defs = gameTwo_def gameThree_def gameFour_def mkPlayer_def new_Player_def

lemma resolution_returns:
  assumes "wellFormed g" and "\<not> specialRuleApplies g"
  shows "\<exists>g' r. calculateRoundResults g = Inr (g', Results r)"
proof -
  have sub: "set (map fst (roundNumbers g)) \<subseteq> set (map fst (players g))"
    using assms(1) by (simp add: wellFormed_def)
  show ?thesis
  proof (rule calculateRoundResults_normal [OF assms(2) sub])
    fix g2 r
    assume "calculateRoundResults g = Inr (g2, Results r)"
    then show ?thesis by blast
  qed
qed

text \<open>Points after a resolution outside the rule for two players.\<close>

lemma points_after_resolution:
  assumes "wellFormed g" and "calculateRoundResults g = Inr (g', Results r)"
  shows "pointsOf g' k =
           map_option (\<lambda>pts. pts -
              (case map_of (roundNumbers g) k of None \<Rightarrow> 0
               | Some n \<Rightarrow> if winner r = Ref k then 0
                           else if length (getAlivePlayers g) = 3 \<and> target r = Num n then 2 else 1))
             (pointsOf g k)"
proof -
  have sub: "set (map fst (roundNumbers g)) \<subseteq> set (map fst (players g))"
    and dist: "distinct (map fst (roundNumbers g))"
    using assms(1) by (simp_all add: wellFormed_def)
  have ns: "\<not> specialRuleApplies g" using assms(2) by (rule calculateRoundResults_Results)
  show ?thesis
  proof (rule calculateRoundResults_normal [OF ns sub])
    fix g1 g2 r0
    assume ap: "applyPenalties (winner r0) (target r0) (roundNumbers g) g = Inr g1"
      and g2: "g2 = g1\<lparr>players :=
                   map (\<lambda>(k, p). (k, if isAlive p \<and> points p \<le> -10 then p\<lparr>isAlive := False\<rparr> else p))
                       (players g1),
                 eliminatedCount := eliminatedCount g1 +
                   length (filter (\<lambda>(k, p). isAlive p \<and> points p \<le> -10) (players g1))\<rparr>"
      and calc: "calculateRoundResults g = Inr (g2, Results r0)"
    from calc assms(2) have eq: "g' = g2" "r = r0" by simp_all
    have p2: "pointsOf g2 k = pointsOf g1 k"
      by (cases "map_of (players g1) k")
         (simp_all add: pointsOf_def Map_get_def g2 map_of_map_snd)
    have p1: "pointsOf g1 k =
           map_option (\<lambda>pts. pts -
              (case map_of (roundNumbers g) k of None \<Rightarrow> 0
               | Some n \<Rightarrow> if Ref k = winner r0 then 0
                           else if length (getAlivePlayers g) = 3 \<and> Num n = target r0 then 2 else 1))
             (pointsOf g k)"
      unfolding pointsOf_def Map_get_def applyPenalties_points [OF dist sub ap, of k]
      by (cases "map_of (players g) k") simp_all
    have sym: "(Ref k = winner r0) = (winner r0 = Ref k)" "\<And>n. (Num n = target r0) = (target r0 = Num n)"
      by auto
    show ?thesis unfolding eq p2 p1 sym ..
  qed
qed

text \<open>The winner of a resolution outside the rule for two players.\<close>

lemma winner_of_resolution:
  assumes "wellFormed g" and "calculateRoundResults g = Inr (g', Results r)"
  shows "(winner r = Null \<and>
            (\<forall>(k, n) \<in> set (roundNumbers g).
                eligible g n \<longrightarrow> \<not> js_less (distance_to n (target r)) Infinity)) \<or>
         (\<exists>w n. winner r = Ref w \<and> (w, n) \<in> set (roundNumbers g) \<and> eligible g n \<and>
            js_less (distance_to n (target r)) Infinity \<and>
            (\<forall>(k', n') \<in> set (roundNumbers g).
                eligible g n' \<longrightarrow> \<not> js_less (distance_to n' (target r)) (distance_to n (target r))))"
proof -
  let ?rn = "roundNumbers g"
  let ?dups = "findDuplicates (map snd ?rn)"
  have sub: "set (map fst ?rn) \<subseteq> set (map fst (players g))"
    using assms(1) by (simp add: wellFormed_def)
  have ns: "\<not> specialRuleApplies g" using assms(2) by (rule calculateRoundResults_Results)
  have el: "\<And>n. (\<not> (n \<in> set ?dups \<and> length (getAlivePlayers g) \<le> 4)) = eligible g n"
    by (simp add: eligible_def findDuplicates_iff)
  show ?thesis
  proof (rule calculateRoundResults_normal [OF ns sub])
    fix g2 r0 wd
    assume fw: "findWinner g ?dups (target_of (average_of (map snd ?rn))) ?rn (Null, Infinity)
                  = (winner r0, wd)"
      and calc: "calculateRoundResults g = Inr (g2, Results r0)"
      and av: "average r0 = average_of (map snd ?rn)"
      and tg: "target r0 = target_of (average r0)"
    from calc assms(2) have eq: "r = r0" by simp
    have t: "target_of (average_of (map snd ?rn)) = target r" using av tg eq by simp
    from findWinner_spec [OF fw [unfolded t], unfolded el]
    show ?thesis
    proof
      assume "winner r0 = Null \<and> wd = Infinity \<and>
                (\<forall>(k, n) \<in> set ?rn. eligible g n \<longrightarrow> \<not> js_less (distance_to n (target r)) Infinity)"
      with eq show ?thesis by simp
    next
      assume "\<exists>(k, n) \<in> set ?rn. eligible g n \<and> winner r0 = players_get g k \<and>
                wd = distance_to n (target r) \<and> js_less wd Infinity \<and>
                (\<forall>(k', n') \<in> set ?rn. eligible g n' \<longrightarrow>
                    \<not> js_less (distance_to n' (target r)) (distance_to n (target r)))"
      then obtain k n where kn: "(k, n) \<in> set ?rn" "eligible g n" "winner r0 = players_get g k"
        "js_less (distance_to n (target r)) Infinity"
        "\<forall>(k', n') \<in> set ?rn. eligible g n' \<longrightarrow>
            \<not> js_less (distance_to n' (target r)) (distance_to n (target r))" by auto
      have "k \<in> set (map fst (players g))" using kn(1) sub by force
      then have "winner r = Ref k" using kn(3) eq by (simp add: players_get_Ref)
      with kn show ?thesis by blast
    qed
  qed
qed

lemma target_of_resolution:
  assumes "wellFormed g" and "calculateRoundResults g = Inr (g', Results r)"
  shows "average r = average_of (map snd (roundNumbers g))" and "target r = target_of (average r)"
proof -
  have sub: "set (map fst (roundNumbers g)) \<subseteq> set (map fst (players g))"
    using assms(1) by (simp add: wellFormed_def)
  have ns: "\<not> specialRuleApplies g" using assms(2) by (rule calculateRoundResults_Results)
  have "average r = average_of (map snd (roundNumbers g)) \<and> target r = target_of (average r)"
  proof (rule calculateRoundResults_normal [OF ns sub])
    fix g2 r0
    assume "calculateRoundResults g = Inr (g2, Results r0)"
      and "average r0 = average_of (map snd (roundNumbers g))"
      and "target r0 = target_of (average r0)"
    with assms(2) show ?thesis by simp
  qed
  then show "average r = average_of (map snd (roundNumbers g))"
    and "target r = target_of (average r)" by simp_all
qed

lemma filter_disjoint_length:
  "(\<And>x. \<not> (P x \<and> Q x)) \<Longrightarrow> length (filter P xs) + length (filter Q xs) \<le> length xs"
  by (induction xs) auto

lemma gameTwo_resolution:
  "calculateRoundResults gameTwo = Inr (gameTwo, Special (Ref ''b'') True True)"
  by (simp add: example_defs calculateRoundResults_def getAlivePlayers_def players_get_def
                Map_has_def)

lemma submitter_points:
  assumes "wellFormed g" and "(k, n) \<in> set (roundNumbers g)"
  shows "map_of (roundNumbers g) k = Some n" and "\<exists>pts. pointsOf g k = Some pts"
proof -
  show "map_of (roundNumbers g) k = Some n"
    using assms by (simp add: wellFormed_def)
  have "k \<in> set (map fst (players g))" using assms by (force simp: wellFormed_def)
  then have "map_of (players g) k \<noteq> None" by (simp add: map_of_eq_None_iff)
  then show "\<exists>pts. pointsOf g k = Some pts" by (auto simp: pointsOf_def Map_get_def)
qed

lemma duplicates_of_resolution:
  assumes "wellFormed g" and "calculateRoundResults g = Inr (g', Results r)"
  shows "duplicates r = findDuplicates (map snd (roundNumbers g))"
proof -
  have sub: "set (map fst (roundNumbers g)) \<subseteq> set (map fst (players g))"
    using assms(1) by (simp add: wellFormed_def)
  have ns: "\<not> specialRuleApplies g" using assms(2) by (rule calculateRoundResults_Results)
  show ?thesis
  proof (rule calculateRoundResults_normal [OF ns sub])
    fix g2 r0
    assume "calculateRoundResults g = Inr (g2, Results r0)"
      and "duplicates r0 = findDuplicates (map snd (roundNumbers g))"
    with assms(2) show ?thesis by simp
  qed
qed

lemma gameOver_of_resolution:
  assumes "wellFormed g" and "calculateRoundResults g = Inr (g', Results r)"
  shows "gameOver r = (length (getAlivePlayers g') \<le> 1)"
proof -
  have sub: "set (map fst (roundNumbers g)) \<subseteq> set (map fst (players g))"
    using assms(1) by (simp add: wellFormed_def)
  have ns: "\<not> specialRuleApplies g" using assms(2) by (rule calculateRoundResults_Results)
  show ?thesis
  proof (rule calculateRoundResults_normal [OF ns sub])
    fix g2 r0
    assume "calculateRoundResults g = Inr (g2, Results r0)"
      and "gameOver r0 = (length (getAlivePlayers g2) \<le> 1)"
    with assms(2) show ?thesis by simp
  qed
qed

lemma special_resolution_returns:
  assumes "specialRuleApplies g"
  shows "\<exists>k. calculateRoundResults g = Inr (g, Special (players_get g k) True True)"
proof -
  have "100 \<in> set (map snd (roundNumbers g))"
    using assms by (simp add: specialRuleApplies_def)
  then have "find (\<lambda>(_, num). num = 100) (roundNumbers g) \<noteq> None"
    by (auto simp: find_None_iff)
  then obtain k v where "find (\<lambda>(_, num). num = 100) (roundNumbers g) = Some (k, v)"
    by (cases "find (\<lambda>(_, num). num = 100) (roundNumbers g)") auto
  then show ?thesis
    using calculateRoundResults_special [OF assms] by auto
qed

text \<open>What a resolution leaves alone, and what it does to the points.\<close>

lemma resolution_frame:
  assumes "wellFormed g"
  shows "\<exists>g' r. calculateRoundResults g = Inr (g', r) \<and>
           map fst (players g') = map fst (players g) \<and>
           roundNumbers g' = roundNumbers g \<and> currentPhase g' = currentPhase g \<and>
           round' g' = round' g \<and> roundStartTime g' = roundStartTime g \<and>
           (\<forall>k pts. pointsOf g k = Some pts \<longrightarrow> (\<exists>pts'. pointsOf g' k = Some pts' \<and> pts' \<le> pts))"
proof (cases "specialRuleApplies g")
  case True
  from special_resolution_returns [OF True] show ?thesis by auto
next
  case False
  have sub: "set (map fst (roundNumbers g)) \<subseteq> set (map fst (players g))"
    using assms by (simp add: wellFormed_def)
  show ?thesis
  proof (rule calculateRoundResults_normal [OF False sub])
    fix g1 g2 r
    assume ap: "applyPenalties (winner r) (target r) (roundNumbers g) g = Inr g1"
      and g2: "g2 = g1\<lparr>players :=
                   map (\<lambda>(k, p). (k, if isAlive p \<and> points p \<le> -10 then p\<lparr>isAlive := False\<rparr> else p))
                       (players g1),
                 eliminatedCount := eliminatedCount g1 +
                   length (filter (\<lambda>(k, p). isAlive p \<and> points p \<le> -10) (players g1))\<rparr>"
      and calc: "calculateRoundResults g = Inr (g2, Results r)"
    from applyPenalties_frame [OF sub, of "winner r" "target r"] ap
    have fr: "g1 = g\<lparr>players := players g1\<rparr>"
      and keys: "map fst (players g1) = map fst (players g)"
      by auto
    have k2: "map fst (players g2) = map fst (players g)"
      unfolding keys [symmetric] by (simp add: g2 comp_def case_prod_unfold)
    have rest: "roundNumbers g2 = roundNumbers g" "currentPhase g2 = currentPhase g"
      "round' g2 = round' g" "roundStartTime g2 = roundStartTime g"
      unfolding g2 by (subst fr, simp)+
    have pts: "\<exists>pts'. pointsOf g2 k = Some pts' \<and> pts' \<le> pts" if "pointsOf g k = Some pts" for k pts
      unfolding points_after_resolution [OF assms calc, of k] that
      by (auto split: option.splits)
    from calc k2 rest pts show ?thesis by blast
  qed
qed

lemma applyPenalties_fields:
  "applyPenalties cp t rn h = Inr h' \<Longrightarrow> h' = h\<lparr>players := players h'\<rparr>"
proof (induction rn arbitrary: h)
  case Nil
  then show ?case by simp
next
  case (Cons e rn)
  obtain k n where e: "e = (k, n)" by (cases e)
  show ?case
  proof (cases "players_get h k = cp")
    case True
    then have "applyPenalties cp t rn h = Inr h'" using Cons.prems e by simp
    then show ?thesis by (rule Cons.IH)
  next
    case False
    then obtain x where ref: "players_get h k = Ref x"
      using Cons.prems e by (cases "players_get h k") (simp_all add: Let_def)
    define pen :: int where
      "pen = (if length (getAlivePlayers h) = 3 \<and> Num n = t then - 1 * 2 else - 1)"
    define h1 where "h1 = h\<lparr>players := mutate x (\<lambda>p. p\<lparr>points := points p + pen\<rparr>) (players h)\<rparr>"
    have "applyPenalties cp t rn h1 = Inr h'"
      using Cons.prems e False ref by (simp add: Let_def h1_def pen_def)
    from Cons.IH [OF this] have "h' = h1\<lparr>players := players h'\<rparr>" .
    then show ?thesis by (simp add: h1_def)
  qed
qed

lemma phase_after_resolution:
  assumes "calculateRoundResults g = Inr (g', r)"
  shows "currentPhase g' = currentPhase g"
proof (cases "specialRuleApplies g")
  case True
  from special_resolution_returns [OF True] assms show ?thesis by auto
next
  case False
  then have ns: "\<not> (length (getAlivePlayers g) = 2 \<and> 0 \<in> set (map snd (roundNumbers g)) \<and>
                     100 \<in> set (map snd (roundNumbers g)))"
    by (simp add: specialRuleApplies_def)
  let ?nums = "map snd (roundNumbers g)"
  obtain w wd where fw: "findWinner g (findDuplicates ?nums) (target_of (average_of ?nums))
      (roundNumbers g) (Null, Infinity) = (w, wd)"
    by (cases "findWinner g (findDuplicates ?nums) (target_of (average_of ?nums))
      (roundNumbers g) (Null, Infinity)")
  from assms obtain g1 where
    ap: "applyPenalties w (target_of (average_of ?nums)) (roundNumbers g) g = Inr g1"
    and g': "g' = g1\<lparr>players := fst (checkEliminations (players g1) (eliminatedCount g1)),
                     eliminatedCount := fst (snd (checkEliminations (players g1) (eliminatedCount g1)))\<rparr>"
    unfolding calculateRoundResults_def Let_def
    by (simp only: ns if_False fw split) (auto split: sum.splits prod.splits)
  from applyPenalties_fields [OF ap] have "currentPhase g1 = currentPhase g"
    by (metis DeathGame.select_convs(5) DeathGame.surjective DeathGame.update_convs(1))
  then show ?thesis by (simp add: g')
qed

lemma run_append:
  "run (xs @ ys) g = (case run xs g of Inl e \<Rightarrow> Inl e | Inr g' \<Rightarrow> run ys g')"
  by (induction xs arbitrary: g) (auto split: sum.splits)

lemma sinceStart_snoc:
  "sinceStart (xs @ [x]) = (if isStartRound x then [] else sinceStart xs @ [x])"
  by (simp add: sinceStart_def)

lemma wellFormed_new_DeathGame: "distinct (map fst ps) \<Longrightarrow> wellFormed (new_DeathGame ps)"
  by (simp add: wellFormed_def new_DeathGame_def)

lemma fst_startRound:
  "fst (startRound now g) = g\<lparr>currentPhase := playing, roundStartTime := Some now, roundNumbers := []\<rparr>"
  by (simp add: startRound_def Let_def)

lemma fst_submitNumber:
  "fst (submitNumber k n g) =
     (if currentPhase g = playing \<and>
         (case Map_get (players g) k of None \<Rightarrow> False | Some p \<Rightarrow> isAlive p)
      then g\<lparr>roundNumbers := Map_set k n (roundNumbers g)\<rparr> else g)"
  by (simp add: submitNumber_def Let_def)

text \<open>Every call returns on a well-formed game, keeps it well formed and raises no points.\<close>

lemma exec_wf:
  assumes "wellFormed g"
  shows "\<exists>g'. exec x g = Inr g' \<and> wellFormed g' \<and>
           (\<forall>k pts. pointsOf g k = Some pts \<longrightarrow> (\<exists>pts'. pointsOf g' k = Some pts' \<and> pts' \<le> pts))"
proof (cases x)
  case (StartRound now)
  define g' where "g' = fst (startRound now g)"
  have "players g' = players g" by (simp add: g'_def fst_startRound)
  then have "pointsOf g' = pointsOf g" by (simp add: pointsOf_def fun_eq_iff)
  moreover have "wellFormed g'" using assms by (simp add: g'_def fst_startRound wellFormed_def)
  ultimately show ?thesis using StartRound by (simp add: g'_def)
next
  case (SubmitNumber k n)
  define g' where "g' = fst (submitNumber k n g)"
  have "players g' = players g" by (simp add: g'_def fst_submitNumber)
  then have same: "pointsOf g' = pointsOf g" by (simp add: pointsOf_def fun_eq_iff)
  have "wellFormed g'"
  proof (cases "currentPhase g = playing \<and>
                (case Map_get (players g) k of None \<Rightarrow> False | Some p \<Rightarrow> isAlive p)")
    case True
    then have "map_of (players g) k \<noteq> None" by (auto simp: Map_get_def split: option.splits)
    then have "k \<in> set (map fst (players g))" by (simp add: map_of_eq_None_iff)
    then show ?thesis
      using assms True
      by (simp add: g'_def fst_submitNumber wellFormed_def distinct_Map_set)
  next
    case False
    then show ?thesis using assms by (auto simp: g'_def fst_submitNumber)
  qed
  with same show ?thesis using SubmitNumber by (simp add: g'_def)
next
  case CalculateRoundResults
  from resolution_frame [OF assms] obtain g' r where
    calc: "calculateRoundResults g = Inr (g', r)"
    and keys: "map fst (players g') = map fst (players g)"
    and rn: "roundNumbers g' = roundNumbers g"
    and pts: "\<forall>k pts. pointsOf g k = Some pts \<longrightarrow> (\<exists>pts'. pointsOf g' k = Some pts' \<and> pts' \<le> pts)"
    by blast
  have "wellFormed g'" using assms keys rn by (simp add: wellFormed_def)
  then show ?thesis using CalculateRoundResults calc pts by simp
next
  case IncrementRound
  define g' where "g' = g\<lparr>round' := round' g + 1\<rparr>"
  have "pointsOf g' = pointsOf g" by (simp add: g'_def pointsOf_def fun_eq_iff)
  moreover have "wellFormed g'" using assms by (simp add: g'_def wellFormed_def)
  ultimately show ?thesis using IncrementRound by (simp add: g'_def)
qed

lemma alive_lookup:
  assumes "case Map_get (players g) k of None \<Rightarrow> False | Some p \<Rightarrow> isAlive p"
  shows "k \<in> set (aliveIds g)"
proof -
  from assms obtain p where p: "map_of (players g) k = Some p" "isAlive p"
    by (auto simp: Map_get_def split: option.splits)
  then have "(k, p) \<in> set (players g)" by (auto dest: map_of_SomeD)
  with p(2) show ?thesis by (force simp: aliveIds_def)
qed

text \<open>
  A resolution brings nobody back, and only \<open>startRound\<close> removes a submission.
\<close>

lemma untilStart_snoc:
  "untilStart (xs @ [x]) = (if isStartRound x then xs @ [x] else untilStart xs)"
  by (simp add: untilStart_def)

lemma alive_filter_cong:
  "map fst xs = map fst ys \<Longrightarrow>
   map (\<lambda>e. isAlive (snd e)) xs = map (\<lambda>e. isAlive (snd e)) ys \<Longrightarrow>
   map fst (filter (\<lambda>e. isAlive (snd e)) xs) = map fst (filter (\<lambda>e. isAlive (snd e)) ys)"
  by (induction xs arbitrary: ys) auto

lemma resolution_alive:
  assumes "wellFormed g" and calc: "calculateRoundResults g = Inr (g', r)"
  shows "set (aliveIds g') \<subseteq> set (aliveIds g)"
proof (cases "specialRuleApplies g")
  case True
  from special_resolution_returns [OF True] calc have "g' = g" by auto
  then show ?thesis by simp
next
  case False
  have sub: "set (map fst (roundNumbers g)) \<subseteq> set (map fst (players g))"
    using assms(1) by (simp add: wellFormed_def)
  show ?thesis
  proof (rule calculateRoundResults_normal [OF False sub])
    fix g1 g2 r'
    assume ap: "applyPenalties (winner r') (target r') (roundNumbers g) g = Inr g1"
      and g2: "g2 = g1\<lparr>players :=
                   map (\<lambda>(k, p). (k, if isAlive p \<and> points p \<le> -10 then p\<lparr>isAlive := False\<rparr> else p))
                       (players g1),
                 eliminatedCount := eliminatedCount g1 +
                   length (filter (\<lambda>(k, p). isAlive p \<and> points p \<le> -10) (players g1))\<rparr>"
      and calc': "calculateRoundResults g = Inr (g2, Results r')"
    from applyPenalties_frame [OF sub, of "winner r'" "target r'"] ap
    have keys: "map fst (players g1) = map fst (players g)"
      and al: "map (\<lambda>e. isAlive (snd e)) (players g1) = map (\<lambda>e. isAlive (snd e)) (players g)"
      by auto
    have one: "aliveIds g1 = aliveIds g"
      unfolding aliveIds_def by (rule alive_filter_cong [OF keys al])
    have two: "set (aliveIds g2) \<subseteq> set (aliveIds g1)"
      by (auto simp: g2 aliveIds_def split: if_splits)
    from calc calc' have "g' = g2" by simp
    with one two show ?thesis by simp
  qed
qed

lemma keys_persist:
  assumes "wellFormed g" and "\<not> isStartRound x" and e: "exec x g = Inr g'"
  shows "set (map fst (roundNumbers g)) \<subseteq> set (map fst (roundNumbers g'))"
proof (cases x)
  case (StartRound now)
  with assms(2) show ?thesis by simp
next
  case (SubmitNumber k n)
  with e have "g' = fst (submitNumber k n g)" by simp
  then show ?thesis by (auto simp: fst_submitNumber)
next
  case CalculateRoundResults
  from resolution_frame [OF assms(1)] obtain g2 r where
    "calculateRoundResults g = Inr (g2, r)" "roundNumbers g2 = roundNumbers g" by blast
  with e CalculateRoundResults show ?thesis by auto
next
  case IncrementRound
  with e show ?thesis by auto
qed

text \<open>
  The arithmetic of the examples, evaluated once: the mean, the target and the distances
  of each list of submissions that the examples use.
\<close>

lemma average_1: "average_of [80, 100, 100, 100, 100] = Num 96"
  by (simp add: average_of_def rnd_eval split del: if_split)

lemma target_96: "target_of (Num 96) = Num (1351079888211149 / 17592186044416)"
  by (simp add: target_of_def rnd_eval split del: if_split)

lemma distance_96_80: "distance_to 80 (Num (1351079888211149 / 17592186044416)) = Num (56294995342131 / 17592186044416)"
  by (simp add: distance_to_def js_sub_def rnd_eval split del: if_split)

lemma distance_96_100: "distance_to 100 (Num (1351079888211149 / 17592186044416)) = Num (408138716230451 / 17592186044416)"
  by (simp add: distance_to_def js_sub_def rnd_eval split del: if_split)

lemma average_2: "average_of [100, 80, 100, 100, 100] = Num 96"
  by (simp add: average_of_def rnd_eval split del: if_split)

lemma average_3: "average_of [100, 100, 80, 100, 100] = Num 96"
  by (simp add: average_of_def rnd_eval split del: if_split)

lemma average_4: "average_of [100, 100, 100, 80, 100] = Num 96"
  by (simp add: average_of_def rnd_eval split del: if_split)

lemma average_5: "average_of [0, 100] = Num 50"
  by (simp add: average_of_def rnd_eval split del: if_split)

lemma target_50: "target_of (Num 50) = Num 40"
  by (simp add: target_of_def rnd_eval split del: if_split)

lemma distance_50_0: "distance_to 0 (Num 40) = Num 40"
  by (simp add: distance_to_def js_sub_def rnd_eval split del: if_split)

lemma distance_50_100: "distance_to 100 (Num 40) = Num 60"
  by (simp add: distance_to_def js_sub_def rnd_eval split del: if_split)

lemma average_6: "average_of [4, 4, 7] = Num 5"
  by (simp add: average_of_def rnd_eval split del: if_split)

lemma target_5: "target_of (Num 5) = Num 4"
  by (simp add: target_of_def rnd_eval split del: if_split)

lemma distance_5_4: "distance_to 4 (Num 4) = Num 0"
  by (simp add: distance_to_def js_sub_def rnd_eval split del: if_split)

lemma distance_5_7: "distance_to 7 (Num 4) = Num 3"
  by (simp add: distance_to_def js_sub_def rnd_eval split del: if_split)

lemma average_7: "average_of [10, 20, 10, 20] = Num 15"
  by (simp add: average_of_def rnd_eval split del: if_split)

lemma target_15: "target_of (Num 15) = Num 12"
  by (simp add: target_of_def rnd_eval split del: if_split)

lemma distance_15_10: "distance_to 10 (Num 12) = Num 2"
  by (simp add: distance_to_def js_sub_def rnd_eval split del: if_split)

lemma distance_15_20: "distance_to 20 (Num 12) = Num 8"
  by (simp add: distance_to_def js_sub_def rnd_eval split del: if_split)

lemma average_8: "average_of [50, 50, 30, 70, 90] = Num 58"
  by (simp add: average_of_def rnd_eval split del: if_split)

lemma target_58: "target_of (Num 58) = Num (1632554864921805 / 35184372088832)"
  by (simp add: target_of_def rnd_eval split del: if_split)

lemma distance_58_30: "distance_to 30 (Num (1632554864921805 / 35184372088832)) = Num (577023702256845 / 35184372088832)"
  by (simp add: distance_to_def js_sub_def rnd_eval split del: if_split)

lemma distance_58_50: "distance_to 50 (Num (1632554864921805 / 35184372088832)) = Num (126663739519795 / 35184372088832)"
  by (simp add: distance_to_def js_sub_def rnd_eval split del: if_split)

lemma distance_58_70: "distance_to 70 (Num (1632554864921805 / 35184372088832)) = Num (830351181296435 / 35184372088832)"
  by (simp add: distance_to_def js_sub_def rnd_eval split del: if_split)

lemma distance_58_90: "distance_to 90 (Num (1632554864921805 / 35184372088832)) = Num (1534038623073075 / 35184372088832)"
  by (simp add: distance_to_def js_sub_def rnd_eval split del: if_split)

lemmas arith_facts = average_1 target_96 distance_96_80 distance_96_100 average_2 average_3 average_4 average_5 target_50 distance_50_0 distance_50_100 average_6 target_5 distance_5_4 distance_5_7 average_7 target_15 distance_15_10 distance_15_20 average_8 target_58 distance_58_30 distance_58_50 distance_58_70 distance_58_90

lemma huge_neq_0 [simp]: "huge \<noteq> 0" "0 \<noteq> huge"
  by (simp_all add: huge_def)

lemma average_overflow: "average_of [huge, huge, 0, 0, 0] = Infinity"
  by (simp add: huge_def average_of_def rnd_eval split del: if_split)

lemma target_infinite: "target_of Infinity = Infinity"
  by (simp add: target_of_def point_eight)

lemma distance_infinite: "distance_to n Infinity = Infinity"
  by (simp add: distance_to_def js_sub_def)

lemmas eval_defs = fst_startRound fst_submitNumber Map_get_def calculateRoundResults_def
  getAlivePlayers_def findDuplicates_def Map_has_def players_get_def upt_conv_Cons arith_facts

lemma round_won_by_a:
  assumes "-9 \<le> pa" "-8 \<le> pb" "-8 \<le> pc" "-8 \<le> pd" "-8 \<le> pe"
  shows "run (playRound ''a'')
           \<lparr>players = fivePlayers pa pb pc pd pe, round' = r, eliminatedCount = ec,
            roundStartTime = st, currentPhase = ph, roundNumbers = rn\<rparr>
         = Inr \<lparr>players = fivePlayers pa (pb - 1) (pc - 1) (pd - 1) (pe - 1), round' = r,
                eliminatedCount = ec, roundStartTime = Some 0, currentPhase = playing,
                roundNumbers = [(''a'', 80), (''b'', 100), (''c'', 100), (''d'', 100), (''e'', 100)]\<rparr>"
  using assms
  by (simp add: playRound_def fivePlayers_def mkPlayer_def new_Player_def eval_defs)

lemma round_won_by_b:
  assumes "-8 \<le> pa" "-9 \<le> pb" "-8 \<le> pc" "-8 \<le> pd" "-8 \<le> pe"
  shows "run (playRound ''b'')
           \<lparr>players = fivePlayers pa pb pc pd pe, round' = r, eliminatedCount = ec,
            roundStartTime = st, currentPhase = ph, roundNumbers = rn\<rparr>
         = Inr \<lparr>players = fivePlayers (pa - 1) pb (pc - 1) (pd - 1) (pe - 1), round' = r,
                eliminatedCount = ec, roundStartTime = Some 0, currentPhase = playing,
                roundNumbers = [(''a'', 100), (''b'', 80), (''c'', 100), (''d'', 100), (''e'', 100)]\<rparr>"
  using assms
  by (simp add: playRound_def fivePlayers_def mkPlayer_def new_Player_def eval_defs)

lemma round_won_by_c:
  assumes "-8 \<le> pa" "-8 \<le> pb" "-9 \<le> pc" "-8 \<le> pd" "-8 \<le> pe"
  shows "run (playRound ''c'')
           \<lparr>players = fivePlayers pa pb pc pd pe, round' = r, eliminatedCount = ec,
            roundStartTime = st, currentPhase = ph, roundNumbers = rn\<rparr>
         = Inr \<lparr>players = fivePlayers (pa - 1) (pb - 1) pc (pd - 1) (pe - 1), round' = r,
                eliminatedCount = ec, roundStartTime = Some 0, currentPhase = playing,
                roundNumbers = [(''a'', 100), (''b'', 100), (''c'', 80), (''d'', 100), (''e'', 100)]\<rparr>"
  using assms
  by (simp add: playRound_def fivePlayers_def mkPlayer_def new_Player_def eval_defs)

lemma run_append_Inr:
  "run xs g = Inr g' \<Longrightarrow> run ys g' = res \<Longrightarrow> run (xs @ ys) g = res"
  by (simp add: run_append)

lemma tenth_round_won_by_d:
  "run (playRound ''d'')
     \<lparr>players = fivePlayers (-2) (-8) (-8) (-9) (-9), round' = r, eliminatedCount = 0,
      roundStartTime = st, currentPhase = ph, roundNumbers = rn\<rparr>
   = Inr (afterTenRounds\<lparr>round' := r\<rparr>)"
  by (simp add: playRound_def fivePlayers_def mkPlayer_def new_Player_def eval_defs
                afterTenRounds_def)

lemma tenRounds_run: "run tenRounds (new_DeathGame (fivePlayers 0 0 0 0 0)) = Inr afterTenRounds"
proof -
  have first: "run (concat (map (\<lambda>w. playRound w @ [IncrementRound])
                 [''a'', ''a'', ''a'', ''a'', ''a'', ''a'', ''a'', ''b'', ''c'']))
          (new_DeathGame (fivePlayers 0 0 0 0 0))
        = Inr \<lparr>players = fivePlayers (-2) (-8) (-8) (-9) (-9), round' = 10, eliminatedCount = 0,
      roundStartTime = Some 0, currentPhase = playing,
      roundNumbers = [(''a'', 100), (''b'', 100), (''c'', 80), (''d'', 100), (''e'', 100)]\<rparr>"
    unfolding new_DeathGame_def
    by (simp add: run_append round_won_by_a round_won_by_b round_won_by_c)
  have last: "run (playRound ''d'')
     \<lparr>players = fivePlayers (-2) (-8) (-8) (-9) (-9), round' = 10, eliminatedCount = 0,
      roundStartTime = Some 0, currentPhase = playing,
      roundNumbers = [(''a'', 100), (''b'', 100), (''c'', 80), (''d'', 100), (''e'', 100)]\<rparr>
     = Inr afterTenRounds"
    unfolding tenth_round_won_by_d by (simp add: afterTenRounds_def)
  show ?thesis unfolding tenRounds_def by (rule run_append_Inr [OF first last])
qed

lemma tenth_round_won_by_b:
  "run (playRound ''b'' @ [IncrementRound, StartRound 0, SubmitNumber ''a'' 0, SubmitNumber ''b'' 100])
     \<lparr>players = fivePlayers (-4) (-5) (-9) (-9) (-9), round' = 10, eliminatedCount = 0,
      roundStartTime = Some 0, currentPhase = playing,
      roundNumbers = [(''a'', 80), (''b'', 100), (''c'', 100), (''d'', 100), (''e'', 100)]\<rparr>
   = Inr gameTwo"
  by (simp add: playRound_def fivePlayers_def mkPlayer_def new_Player_def eval_defs
                gameTwo_def)

lemma gameTwo_reachable: "run roundsToTwo (new_DeathGame (fivePlayers 0 0 0 0 0)) = Inr gameTwo"
proof -
  have first: "run (concat (map (\<lambda>w. playRound w @ [IncrementRound])
                 [''a'', ''b'', ''a'', ''b'', ''a'', ''b'', ''a'', ''b'', ''a'']))
          (new_DeathGame (fivePlayers 0 0 0 0 0))
        = Inr \<lparr>players = fivePlayers (-4) (-5) (-9) (-9) (-9), round' = 10, eliminatedCount = 0,
      roundStartTime = Some 0, currentPhase = playing,
      roundNumbers = [(''a'', 80), (''b'', 100), (''c'', 100), (''d'', 100), (''e'', 100)]\<rparr>"
    unfolding new_DeathGame_def
    by (simp add: run_append round_won_by_a round_won_by_b)
  have split: "roundsToTwo = concat (map (\<lambda>w. playRound w @ [IncrementRound])
                 [''a'', ''b'', ''a'', ''b'', ''a'', ''b'', ''a'', ''b'', ''a'']) @
       (playRound ''b'' @ [IncrementRound, StartRound 0, SubmitNumber ''a'' 0, SubmitNumber ''b'' 100])"
    by (simp add: roundsToTwo_def)
  show ?thesis unfolding split by (rule run_append_Inr [OF first tenth_round_won_by_b])
qed

section \<open>Properties of the handlers\<close>

lemma set_Map_set: "set (Map_set k v m) \<subseteq> insert (k, v) (set m)"
proof
  fix e assume "e \<in> set (Map_set k v m)"
  then show "e \<in> insert (k, v) (set m)"
    by (induction m) (auto split: if_splits)
qed

lemma set_mutate_const: "set (mutate k (\<lambda>_. v) m) \<subseteq> insert (k, v) (set m)"
proof
  fix e assume "e \<in> set (mutate k (\<lambda>_. v) m)"
  then show "e \<in> insert (k, v) (set m)"
    by (induction m) (auto split: if_splits)
qed

lemma set_Map_delete: "set (Map_delete k m) = {e \<in> set m. fst e \<noteq> k}"
  by (auto simp: Map_delete_def)

lemma length_Map_set: "length (Map_set k v m) \<le> Suc (length m)"
  by (induction m) auto

lemma Map_get_in: "Map_get m k = Some v \<Longrightarrow> (k, v) \<in> set m"
  by (auto simp: Map_get_def dest: map_of_SomeD)

lemma createRoom_invariant:
  assumes "serverInvariant srv"
  shows "serverInvariant (fst (on_createRoom sid playerName roomCode srv))"
    and "emit_error ''Room is full'' \<notin> set (snd (on_createRoom sid playerName roomCode srv))"
proof -
  let ?room = "\<lparr>host = sid, roomPlayers = [(sid, new_Player sid playerName)]\<rparr>"
  have "length (roomPlayers (snd e)) \<le> 4 \<and> distinct (map fst (roomPlayers (snd e)))"
    if "e \<in> set (Map_set roomCode ?room (waitingRooms srv))" for e
  proof -
    from that set_Map_set [of roomCode ?room "waitingRooms srv"]
    have "e = (roomCode, ?room) \<or> e \<in> set (waitingRooms srv)" by auto
    then show ?thesis
    proof
      assume "e = (roomCode, ?room)"
      then show ?thesis by simp
    next
      assume "e \<in> set (waitingRooms srv)"
      then show ?thesis using assms by (simp add: serverInvariant_def)
    qed
  qed
  then show "serverInvariant (fst (on_createRoom sid playerName roomCode srv))"
    using assms by (simp add: serverInvariant_def on_createRoom_def)
  show "emit_error ''Room is full'' \<notin> set (snd (on_createRoom sid playerName roomCode srv))"
    by (simp add: on_createRoom_def)
qed

lemma joinRoom_invariant:
  assumes "serverInvariant srv"
  shows "serverInvariant (fst (on_joinRoom sid roomCode playerName now srv))"
    and "emit_error ''Room is full'' \<notin> set (snd (on_joinRoom sid roomCode playerName now srv))"
proof -
  have rooms: "\<And>e. e \<in> set (waitingRooms srv) \<Longrightarrow>
      length (roomPlayers (snd e)) \<le> 4 \<and> distinct (map fst (roomPlayers (snd e)))"
    and gs: "\<And>e. e \<in> set (games srv) \<Longrightarrow> wellFormed (snd e)"
    using assms by (auto simp: serverInvariant_def)
  show "serverInvariant (fst (on_joinRoom sid roomCode playerName now srv))"
   and "emit_error ''Room is full'' \<notin> set (snd (on_joinRoom sid roomCode playerName now srv))"
  proof (atomize (full), cases "Map_get (waitingRooms srv) roomCode")
    case None
    then show "serverInvariant (fst (on_joinRoom sid roomCode playerName now srv)) \<and>
      emit_error ''Room is full'' \<notin> set (snd (on_joinRoom sid roomCode playerName now srv))"
      using assms by (simp add: on_joinRoom_def)
  next
    case (Some room)
    from rooms [OF Map_get_in [OF Some]]
    have small: "length (roomPlayers room) \<le> 4" and dist: "distinct (map fst (roomPlayers room))"
      by simp_all
    define room' where
      "room' = room\<lparr>roomPlayers := Map_set sid (new_Player sid playerName) (roomPlayers room)\<rparr>"
    define srv1 where
      "srv1 = srv\<lparr>waitingRooms := mutate roomCode (\<lambda>_. room') (waitingRooms srv)\<rparr>"
    have len': "length (roomPlayers room') \<le> 5"
      using small length_Map_set [of sid "new_Player sid playerName" "roomPlayers room"]
      by (simp add: room'_def)
    have dist': "distinct (map fst (roomPlayers room'))"
      using dist by (simp add: room'_def distinct_Map_set)
    have in1: "e \<in> set (waitingRooms srv1) \<Longrightarrow> e = (roomCode, room') \<or> e \<in> set (waitingRooms srv)" for e
      using set_mutate_const [of roomCode room' "waitingRooms srv"] by (auto simp: srv1_def)
    show "serverInvariant (fst (on_joinRoom sid roomCode playerName now srv)) \<and>
      emit_error ''Room is full'' \<notin> set (snd (on_joinRoom sid roomCode playerName now srv))"
    proof (cases "length (roomPlayers room') = 5")
      case True
      define game where "game = fst (startRound now (new_DeathGame (roomPlayers room')))"
      have wg: "wellFormed game"
        using dist' by (simp add: game_def fst_startRound wellFormed_def new_DeathGame_def)
      have res: "on_joinRoom sid roomCode playerName now srv =
          (srv1\<lparr>games := Map_set roomCode game (games srv1),
                waitingRooms := Map_delete roomCode (waitingRooms srv1)\<rparr>,
           [emit_joinedRoom roomCode sid, emit_playerJoined (map snd (roomPlayers room')),
            emit_gameStart (snd (startRound now (new_DeathGame (roomPlayers room'))))])"
        using Some small True
        by (simp add: on_joinRoom_def Let_def room'_def srv1_def game_def case_prod_unfold)
      have W: "\<forall>e \<in> set (Map_delete roomCode (waitingRooms srv1)).
                 length (roomPlayers (snd e)) \<le> 4 \<and> distinct (map fst (roomPlayers (snd e)))"
      proof
        fix e assume "e \<in> set (Map_delete roomCode (waitingRooms srv1))"
        then have "e \<in> set (waitingRooms srv)" using in1 [of e] by (auto simp: set_Map_delete)
        then show "length (roomPlayers (snd e)) \<le> 4 \<and> distinct (map fst (roomPlayers (snd e)))"
          by (rule rooms)
      qed
      have G: "\<forall>e \<in> set (Map_set roomCode game (games srv1)). wellFormed (snd e)"
      proof
        fix e assume "e \<in> set (Map_set roomCode game (games srv1))"
        then have "e = (roomCode, game) \<or> e \<in> set (games srv)"
          using set_Map_set [of roomCode game "games srv1"] by (auto simp: srv1_def)
        then show "wellFormed (snd e)"
        proof
          assume "e = (roomCode, game)"
          then show ?thesis using wg by simp
        next
          assume "e \<in> set (games srv)"
          then show ?thesis by (rule gs)
        qed
      qed
      show ?thesis by (simp add: res serverInvariant_def W G)
    next
      case False
      then have small': "length (roomPlayers room') \<le> 4" using len' by simp
      have res: "on_joinRoom sid roomCode playerName now srv =
          (srv1, [emit_joinedRoom roomCode sid, emit_playerJoined (map snd (roomPlayers room'))])"
        using Some small False
        by (simp add: on_joinRoom_def Let_def room'_def srv1_def)
      have G: "games srv1 = games srv" by (simp add: srv1_def)
      have W: "\<forall>e \<in> set (waitingRooms srv1).
                 length (roomPlayers (snd e)) \<le> 4 \<and> distinct (map fst (roomPlayers (snd e)))"
      proof
        fix e assume "e \<in> set (waitingRooms srv1)"
        then have "e = (roomCode, room') \<or> e \<in> set (waitingRooms srv)" by (rule in1)
        then show "length (roomPlayers (snd e)) \<le> 4 \<and> distinct (map fst (roomPlayers (snd e)))"
        proof
          assume "e = (roomCode, room')"
          then show ?thesis using small' dist' by simp
        next
          assume "e \<in> set (waitingRooms srv)"
          then show ?thesis by (rule rooms)
        qed
      qed
      show ?thesis using W gs by (simp add: res serverInvariant_def G)
    qed
  qed
qed

lemma submitNumber_wellFormed:
  assumes "wellFormed g"
  shows "wellFormed (fst (submitNumber sid n g))"
  using exec_wf [OF assms, of "SubmitNumber sid n"] by auto

lemma resolution_wellFormed:
  assumes "wellFormed g"
  shows "\<exists>g' r. calculateRoundResults g = Inr (g', r) \<and> wellFormed g'"
proof -
  from resolution_frame [OF assms] obtain g' r where
    calc: "calculateRoundResults g = Inr (g', r)"
    and keys: "map fst (players g') = map fst (players g)"
    and rn: "roundNumbers g' = roundNumbers g" by blast
  have "wellFormed g'" using assms keys rn by (simp add: wellFormed_def)
  with calc show ?thesis by blast
qed

lemma games_replaced:
  assumes "\<And>e. e \<in> set gs \<Longrightarrow> wellFormed (snd e)" and "wellFormed g"
  shows "\<forall>e \<in> set (mutate roomCode (\<lambda>_. g) gs). wellFormed (snd e)"
    and "\<forall>e \<in> set (Map_delete roomCode (mutate roomCode (\<lambda>_. g) gs)). wellFormed (snd e)"
proof -
  show 1: "\<forall>e \<in> set (mutate roomCode (\<lambda>_. g) gs). wellFormed (snd e)"
  proof
    fix e assume "e \<in> set (mutate roomCode (\<lambda>_. g) gs)"
    then have "e = (roomCode, g) \<or> e \<in> set gs"
      using set_mutate_const [of roomCode g gs] by auto
    then show "wellFormed (snd e)"
    proof
      assume "e = (roomCode, g)"
      then show ?thesis using assms(2) by simp
    next
      assume "e \<in> set gs"
      then show ?thesis by (rule assms(1))
    qed
  qed
  show "\<forall>e \<in> set (Map_delete roomCode (mutate roomCode (\<lambda>_. g) gs)). wellFormed (snd e)"
    using 1 by (simp add: set_Map_delete)
qed

lemma submitNumber_invariant:
  assumes "serverInvariant srv"
  shows "\<exists>srv' out. on_submitNumber sid roomCode n srv = Inr (srv', out) \<and>
           serverInvariant srv' \<and> emit_error ''Room is full'' \<notin> set out"
proof (cases "Map_get (games srv) roomCode")
  case None
  then show ?thesis using assms by (simp add: on_submitNumber_def)
next
  case (Some game)
  have gs: "\<And>e. e \<in> set (games srv) \<Longrightarrow> wellFormed (snd e)"
    using assms by (simp add: serverInvariant_def)
  have rooms: "\<forall>e \<in> set (waitingRooms srv).
      length (roomPlayers (snd e)) \<le> 4 \<and> distinct (map fst (roomPlayers (snd e)))"
    using assms by (simp add: serverInvariant_def)
  have "wellFormed game" using gs [OF Map_get_in [OF Some]] by simp
  then have w1: "wellFormed (fst (submitNumber sid n game))" by (rule submitNumber_wellFormed)
  obtain g1 allSubmitted where sub: "submitNumber sid n game = (g1, allSubmitted)"
    by (cases "submitNumber sid n game")
  with w1 have wg1: "wellFormed g1" by simp
  show ?thesis
  proof (cases allSubmitted)
    case False
    then have "on_submitNumber sid roomCode n srv =
        Inr (srv\<lparr>games := mutate roomCode (\<lambda>_. g1) (games srv)\<rparr>, [])"
      using Some sub by (simp add: on_submitNumber_def)
    then show ?thesis
      using games_replaced(1) [of "games srv" g1 roomCode, OF gs wg1] rooms
      by (simp add: serverInvariant_def)
  next
    case True
    from resolution_wellFormed [OF wg1] obtain g2 res where
      calc: "calculateRoundResults g1 = Inr (g2, res)" and wg2: "wellFormed g2" by blast
    show ?thesis
    proof (cases "gameOver_of res")
      case over: True
      have "on_submitNumber sid roomCode n srv =
        Inr (srv\<lparr>games := Map_delete roomCode (mutate roomCode (\<lambda>_. g2) (games srv))\<rparr>,
             [emit_roundResults res, emit_gameOver (winner_of res) (map snd (players g2))])"
        using Some sub True calc over by (simp add: on_submitNumber_def Let_def)
      then show ?thesis
        using games_replaced(2) [of "games srv" g2 roomCode, OF gs wg2] rooms
        by (simp add: serverInvariant_def)
    next
      case False
      have "on_submitNumber sid roomCode n srv =
        Inr (srv\<lparr>games := mutate roomCode (\<lambda>_. g2) (games srv)\<rparr>, [emit_roundResults res])"
        using Some sub True calc False by (simp add: on_submitNumber_def Let_def)
      then show ?thesis
        using games_replaced(1) [of "games srv" g2 roomCode, OF gs wg2] rooms
        by (simp add: serverInvariant_def)
    qed
  qed
qed

lemma timer_invariant:
  assumes "serverInvariant srv"
  shows "serverInvariant (fst (on_timer roomCode now srv))"
    and "emit_error ''Room is full'' \<notin> set (snd (on_timer roomCode now srv))"
proof -
  show "serverInvariant (fst (on_timer roomCode now srv))"
  proof (cases "Map_get (games srv) roomCode")
    case None
    then show ?thesis using assms by (simp add: on_timer_def)
  next
    case (Some game)
    have gs: "\<And>e. e \<in> set (games srv) \<Longrightarrow> wellFormed (snd e)"
      using assms by (simp add: serverInvariant_def)
    have "wellFormed game" using gs [OF Map_get_in [OF Some]] by simp
    then have w: "wellFormed (fst (startRound now (game\<lparr>round' := round' game + 1\<rparr>)))"
      by (simp add: fst_startRound wellFormed_def)
    have "fst (on_timer roomCode now srv) =
        srv\<lparr>games := mutate roomCode
          (\<lambda>_. fst (startRound now (game\<lparr>round' := round' game + 1\<rparr>))) (games srv)\<rparr>"
      using Some by (simp add: on_timer_def case_prod_unfold)
    then show ?thesis
      using games_replaced(1) [of "games srv" _ roomCode, OF gs w] assms
      by (simp add: serverInvariant_def)
  qed
  show "emit_error ''Room is full'' \<notin> set (snd (on_timer roomCode now srv))"
    by (cases "Map_get (games srv) roomCode") (simp_all add: on_timer_def case_prod_unfold)
qed

lemma handle_invariant:
  assumes "serverInvariant srv"
  shows "\<exists>srv' out. handle ev srv = Inr (srv', out) \<and>
           serverInvariant srv' \<and> emit_error ''Room is full'' \<notin> set out"
proof (cases ev)
  case (CreateRoom sid playerName roomCode)
  then show ?thesis
    using createRoom_invariant [OF assms, of sid playerName roomCode]
    by (cases "on_createRoom sid playerName roomCode srv") simp
next
  case (JoinRoom sid roomCode playerName now)
  then show ?thesis
    using joinRoom_invariant [OF assms, of sid roomCode playerName now]
    by (cases "on_joinRoom sid roomCode playerName now srv") simp
next
  case (SubmitNumberEvent sid roomCode n)
  then show ?thesis using submitNumber_invariant [OF assms, of sid roomCode n] by simp
next
  case (Disconnect sid)
  then show ?thesis using assms by simp
next
  case (TimerFires roomCode now)
  then show ?thesis
    using timer_invariant [OF assms, of roomCode now]
    by (cases "on_timer roomCode now srv") simp
qed

lemma serve_invariant:
  assumes "serverInvariant srv"
  shows "\<exists>srv' out. serve evs srv = Inr (srv', out) \<and>
           serverInvariant srv' \<and> emit_error ''Room is full'' \<notin> set out"
  using assms
proof (induction evs arbitrary: srv)
  case Nil
  then show ?case by simp
next
  case (Cons ev evs)
  from handle_invariant [OF Cons.prems, of ev] obtain srv1 out1 where
    h: "handle ev srv = Inr (srv1, out1)" and i1: "serverInvariant srv1"
    and o1: "emit_error ''Room is full'' \<notin> set out1" by blast
  from Cons.IH [OF i1] obtain srv2 out2 where
    s: "serve evs srv1 = Inr (srv2, out2)" and i2: "serverInvariant srv2"
    and o2: "emit_error ''Room is full'' \<notin> set out2" by blast
  show ?case using h s i2 o1 o2 by simp
qed

lemma sixJoins_run:
  "\<exists>srv out. serve sixJoins initialServer = Inr (srv, out) \<and> waitingRooms srv = [] \<and>
     map fst (games srv) = [''ROOM01''] \<and>
     map (\<lambda>e. (map fst (players (snd e)), currentPhase (snd e))) (games srv)
       = [([''s1'', ''s2'', ''s3'', ''s4'', ''s5''], playing)] \<and>
     last out = emit_error ''Room not found''"
  by (simp add: sixJoins_def initialServer_def on_createRoom_def on_joinRoom_def Map_get_def
                Map_delete_def startRound_def new_DeathGame_def Let_def)

lemma overflow_resolution:
  "calculateRoundResults gameOverflow = Inr (afterOverflow, Results overflowResults)"
proof -
  have "findDuplicates [huge, huge, 0, 0, 0] = [huge, 0, 0]"
    by (simp add: findDuplicates_def upt_conv_Cons)
  then show ?thesis
    by (simp add: gameOverflow_def afterOverflow_def overflowResults_def fivePlayers_def
                  mkPlayer_def new_Player_def Map_get_def calculateRoundResults_def
                  getAlivePlayers_def Map_has_def players_get_def average_overflow
                  target_infinite distance_infinite Let_def)
qed

lemma overflow_reachable:
  "run overflowRound (new_DeathGame (fivePlayers 0 0 0 0 0)) = Inr afterOverflow"
proof -
  have first: "run [StartRound 0, SubmitNumber ''a'' huge, SubmitNumber ''b'' huge,
             SubmitNumber ''c'' 0, SubmitNumber ''d'' 0, SubmitNumber ''e'' 0]
          (new_DeathGame (fivePlayers 0 0 0 0 0)) = Inr gameOverflow"
    by (simp add: new_DeathGame_def gameOverflow_def fivePlayers_def mkPlayer_def
                  new_Player_def fst_startRound fst_submitNumber Map_get_def)
  have last: "run [CalculateRoundResults] gameOverflow = Inr afterOverflow"
    by (simp add: overflow_resolution)
  have split: "overflowRound =
       [StartRound 0, SubmitNumber ''a'' huge, SubmitNumber ''b'' huge,
        SubmitNumber ''c'' 0, SubmitNumber ''d'' 0, SubmitNumber ''e'' 0] @ [CalculateRoundResults]"
    by (simp add: overflowRound_def)
  show ?thesis unfolding split by (rule run_append_Inr [OF first last])
qed

section \<open>Worked examples\<close>

text \<open>
  Three players alive, submissions 4, 4 and 7: the mean is 5 and the target 4. The
  value 4 is shared, so \<open>c\<close> wins; \<open>a\<close> and \<open>b\<close> submitted the target and lose two
  points each, and \<open>a\<close>, now at \<open>-10\<close>, is eliminated in the same call.
\<close>

lemma gameThree_resolution:
  "\<exists>g' r. calculateRoundResults gameThree = Inr (g', Results r) \<and>
     average r = Num 5 \<and> target r = Num 4 \<and> duplicates r = [4] \<and> winner r = Ref ''c'' \<and>
     map (\<lambda>(k, p). (k, points p, isAlive p)) (players g') =
       [(''a'', -10, False), (''b'', -9, True), (''c'', -5, True),
        (''d'', -10, False), (''e'', -10, False)] \<and>
     eliminatedCount g' = 3 \<and> eliminations r = [''a''] \<and> \<not> gameOver r"
proof -
  have "findDuplicates [4, 4, 7] = [4]" by (simp add: findDuplicates_def upt_conv_Cons)
  then show ?thesis
    by (simp add: example_defs Map_get_def calculateRoundResults_def getAlivePlayers_def
                  Map_has_def players_get_def arith_facts Let_def)
qed

text \<open>
  Four players alive, every value shared: nobody wins, everybody loses a point, and
  \<open>c\<close> is eliminated.
\<close>

lemma gameFour_resolution:
  "\<exists>g' r. calculateRoundResults gameFour = Inr (g', Results r) \<and>
     average r = Num 15 \<and> target r = Num 12 \<and> duplicates r = [10, 20] \<and> winner r = Null \<and>
     map (\<lambda>(k, p). (k, points p, isAlive p)) (players g') =
       [(''a'', -8, True), (''b'', -9, True), (''c'', -10, False),
        (''d'', -7, True), (''e'', -10, False)] \<and>
     eliminatedCount g' = 2 \<and> eliminations r = [''c''] \<and> \<not> gameOver r"
proof -
  have "findDuplicates [10, 20, 10, 20] = [10, 20]"
    by (simp add: findDuplicates_def upt_conv_Cons)
  then show ?thesis
    by (simp add: example_defs Map_get_def calculateRoundResults_def getAlivePlayers_def
                  Map_has_def players_get_def arith_facts Let_def)
qed

text \<open>
  Five players alive, submissions 50, 50, 30, 70 and 90: the mean is 58, the target
  is the double 46.400000000000006, and the shared value 50 may win; the first player
  who submitted it wins.
\<close>

lemma scenario_A:
  "\<exists>g' r. calculateRoundResults
       \<lparr>players = fivePlayers 0 0 0 0 0, round' = 1, eliminatedCount = 0,
        roundStartTime = Some 0, currentPhase = playing,
        roundNumbers = [(''a'', 50), (''b'', 50), (''c'', 30), (''d'', 70), (''e'', 90)]\<rparr>
       = Inr (g', Results r) \<and>
     average r = Num 58 \<and> target r = Num (1632554864921805 / 35184372088832) \<and> duplicates r = [50] \<and>
     winner r = Ref ''a'' \<and> players g' = fivePlayers 0 (-1) (-1) (-1) (-1) \<and> \<not> gameOver r"
proof -
  have "findDuplicates [50, 50, 30, 70, 90] = [50]"
    by (simp add: findDuplicates_def upt_conv_Cons)
  then show ?thesis
    by (simp add: fivePlayers_def mkPlayer_def new_Player_def Map_get_def
                  calculateRoundResults_def getAlivePlayers_def Map_has_def players_get_def
                  arith_facts Let_def)
qed

text \<open>
  Three players alive submit the doubles 97.3, 87 and 24.2. The mean is 69.5 and the
  target is the double 55.6; the computed distances of 87 and of 24.2 are the doubles
  31.4 and 31.400000000000002, so 87 wins, although in exact arithmetic 24.2 is the
  closer of the two to four fifths of the mean.
\<close>

lemma scenario_rounding:
  "average_of [6846878808486707 / 70368744177664, 87, 6811694436397875 / 281474976710656]
     = Num (139 / 2) \<and>
   target_of (Num (139 / 2)) = Num (7825004352556237 / 140737488355328) \<and>
   distance_to 87 (Num (7825004352556237 / 140737488355328))
     = Num (4419157134357299 / 140737488355328) \<and>
   distance_to (6811694436397875 / 281474976710656) (Num (7825004352556237 / 140737488355328))
     = Num (8838314268714599 / 281474976710656) \<and>
   js_less (Num (4419157134357299 / 140737488355328)) (Num (8838314268714599 / 281474976710656)) \<and>
   \<bar>6811694436397875 / 281474976710656 -
      (6846878808486707 / 70368744177664 + 87 + 6811694436397875 / 281474976710656) / 3 * (4 / 5)\<bar>
     < \<bar>87 - (6846878808486707 / 70368744177664 + 87 + 6811694436397875 / 281474976710656) / 3 * (4 / 5) :: rat\<bar>"
proof -
  have 1: "average_of [6846878808486707 / 70368744177664, 87, 6811694436397875 / 281474976710656]
     = Num (139 / 2)"
    by (simp add: average_of_def rnd_eval split del: if_split)
  have 2: "target_of (Num (139 / 2)) = Num (7825004352556237 / 140737488355328)"
    by (simp add: target_of_def rnd_eval split del: if_split)
  have 3: "distance_to 87 (Num (7825004352556237 / 140737488355328))
     = Num (4419157134357299 / 140737488355328)"
    by (simp add: distance_to_def js_sub_def rnd_eval split del: if_split)
  have 4: "distance_to (6811694436397875 / 281474976710656) (Num (7825004352556237 / 140737488355328))
     = Num (8838314268714599 / 281474976710656)"
    by (simp add: distance_to_def js_sub_def rnd_eval split del: if_split)
  have 5: "js_less (Num (4419157134357299 / 140737488355328)) (Num (8838314268714599 / 281474976710656))"
    by simp
  have 6: " \<bar>6811694436397875 / 281474976710656 -
      (6846878808486707 / 70368744177664 + 87 + 6811694436397875 / 281474976710656) / 3 * (4 / 5)\<bar>
     < \<bar>87 - (6846878808486707 / 70368744177664 + 87 + 6811694436397875 / 281474976710656) / 3 * (4 / 5) :: rat\<bar>"
    by simp
  from 1 2 3 4 5 6 show ?thesis by blast
qed

section \<open>The claims\<close>

text \<open>
  C1. As stated, for every resolution, the claim fails in two ways. When the rule for
  two players fires: with two players alive and the submissions 0 and 100, both values
  may win, the target is 40, the player who submitted 0 is at distance 40 and the one
  who submitted 100 is at distance 60, and the winner is the one who submitted 100.
  When the sum of the submissions overflows: with five players alive and the
  submissions \<open>huge\<close>, \<open>huge\<close>, 0, 0 and 0 (\<open>huge\<close> is \<open>2^1023\<close>), every value may win, the mean and the
  target are \<open>Infinity\<close>, so is every distance, and there is no winner.
\<close>

theorem winner_selection_counterexample:
  "run roundsToTwo (new_DeathGame (fivePlayers 0 0 0 0 0)) = Inr gameTwo \<and>
   calculateRoundResults gameTwo = Inr (gameTwo, Special (Ref ''b'') True True) \<and>
   winner_of (Special (Ref ''b'') True True) = Ref ''b'' \<and>
   length (getAlivePlayers gameTwo) = 2 \<and>
   roundNumbers gameTwo = [(''a'', 0), (''b'', 100)] \<and>
   eligible gameTwo 0 \<and> eligible gameTwo 100 \<and>
   target_of (average_of (map snd (roundNumbers gameTwo))) = Num 40 \<and>
   distance_to 0 (Num 40) = Num 40 \<and> distance_to 100 (Num 40) = Num 60 \<and>
   js_less (Num 40) (Num 60) \<and>
   run overflowRound (new_DeathGame (fivePlayers 0 0 0 0 0)) = Inr afterOverflow \<and>
   calculateRoundResults gameOverflow = Inr (afterOverflow, Results overflowResults) \<and>
   winner overflowResults = Null \<and> target overflowResults = Infinity \<and>
   length (getAlivePlayers gameOverflow) = 5 \<and>
   eligible gameOverflow huge \<and> eligible gameOverflow 0"
proof -
  have two: "run roundsToTwo (new_DeathGame (fivePlayers 0 0 0 0 0)) = Inr gameTwo \<and>
   calculateRoundResults gameTwo = Inr (gameTwo, Special (Ref ''b'') True True) \<and>
   winner_of (Special (Ref ''b'') True True) = Ref ''b'' \<and>
   length (getAlivePlayers gameTwo) = 2 \<and>
   roundNumbers gameTwo = [(''a'', 0), (''b'', 100)] \<and>
   eligible gameTwo 0 \<and> eligible gameTwo 100 \<and>
   target_of (average_of (map snd (roundNumbers gameTwo))) = Num 40 \<and>
   distance_to 0 (Num 40) = Num 40 \<and> distance_to 100 (Num 40) = Num 60 \<and>
   js_less (Num 40) (Num 60)"
    using gameTwo_reachable gameTwo_resolution
    by (simp add: example_defs getAlivePlayers_def eligible_def timesSubmitted_def arith_facts)
  have five: "length (getAlivePlayers gameOverflow) = 5 \<and>
   eligible gameOverflow huge \<and> eligible gameOverflow 0"
    by (simp add: gameOverflow_def fivePlayers_def mkPlayer_def new_Player_def
                  getAlivePlayers_def eligible_def)
  have res: "winner overflowResults = Null \<and> target overflowResults = Infinity"
    by (simp add: overflowResults_def)
  from two five res overflow_reachable overflow_resolution show ?thesis by blast
qed

text \<open>
  C1, amended. When the rule for two players does not fire, the resolution returns
  full results: the mean and the target are the doubles that the code computes,
  \<open>duplicates\<close> holds exactly the values submitted by two or more players, and a value
  may win unless it is such a value while at most four players are alive. The distance
  of a value is the double \<open>Math.abs(number - target)\<close>. The winner is \<open>null\<close> when no
  value that may win is at a finite distance (none may win, or the arithmetic has
  overflowed); otherwise the winner is a player whose value may win and is at a finite
  distance that no value that may win undercuts.
\<close>

theorem winner_selection:
  assumes "wellFormed g" and "\<not> specialRuleApplies g"
  shows "\<exists>g' r. calculateRoundResults g = Inr (g', Results r) \<and>
     average r = average_of (map snd (roundNumbers g)) \<and> target r = target_of (average r) \<and>
     (\<forall>n. n \<in> set (duplicates r) \<longleftrightarrow> 2 \<le> timesSubmitted (roundNumbers g) n) \<and>
     ((winner r = Null \<and>
         (\<forall>(k, n) \<in> set (roundNumbers g).
             eligible g n \<longrightarrow> \<not> js_less (distance_to n (target r)) Infinity)) \<or>
      (\<exists>w n. winner r = Ref w \<and> (w, n) \<in> set (roundNumbers g) \<and> eligible g n \<and>
         js_less (distance_to n (target r)) Infinity \<and>
         (\<forall>(k', n') \<in> set (roundNumbers g).
             eligible g n' \<longrightarrow> \<not> js_less (distance_to n' (target r)) (distance_to n (target r)))))"
proof -
  from resolution_returns [OF assms] obtain g' r where
    calc: "calculateRoundResults g = Inr (g', Results r)" by blast
  have "\<forall>n. n \<in> set (duplicates r) \<longleftrightarrow> 2 \<le> timesSubmitted (roundNumbers g) n"
    unfolding duplicates_of_resolution [OF assms(1) calc] by (simp add: findDuplicates_iff)
  with calc winner_of_resolution [OF assms(1) calc] target_of_resolution [OF assms(1) calc]
  show ?thesis by blast
qed

theorem winner_selection_witness:
  "wellFormed gameThree \<and> \<not> specialRuleApplies gameThree \<and>
   (\<exists>g' r. calculateRoundResults gameThree = Inr (g', Results r) \<and>
     average r = average_of (map snd (roundNumbers gameThree)) \<and>
     target r = target_of (average r) \<and>
     (\<forall>n. n \<in> set (duplicates r) \<longleftrightarrow> 2 \<le> timesSubmitted (roundNumbers gameThree) n) \<and>
     ((winner r = Null \<and>
         (\<forall>(k, n) \<in> set (roundNumbers gameThree).
             eligible gameThree n \<longrightarrow> \<not> js_less (distance_to n (target r)) Infinity)) \<or>
      (\<exists>w n. winner r = Ref w \<and> (w, n) \<in> set (roundNumbers gameThree) \<and>
         eligible gameThree n \<and> js_less (distance_to n (target r)) Infinity \<and>
         (\<forall>(k', n') \<in> set (roundNumbers gameThree).
             eligible gameThree n' \<longrightarrow>
             \<not> js_less (distance_to n' (target r)) (distance_to n (target r))))))"
proof -
  have 1: "wellFormed gameThree" by (simp add: wellFormed_def example_defs)
  have 2: "\<not> specialRuleApplies gameThree"
    by (simp add: specialRuleApplies_def example_defs getAlivePlayers_def)
  from winner_selection [OF 1 2] 1 2 show ?thesis by blast
qed

text \<open>
  C2. If exactly two players are alive and the two submitted numbers are exactly 0 and
  100, the resolution returns the player who submitted 100 as the winner, with
  \<open>gameOver = true\<close> and \<open>specialRule = true\<close>. The game it returns is the game it was
  given: no points change and nobody is eliminated.
\<close>

theorem sudden_death:
  assumes "length (getAlivePlayers g) = 2"
    and "length (roundNumbers g) = 2"
    and "set (map snd (roundNumbers g)) = {0, 100}"
    and "(w, 100) \<in> set (roundNumbers g)"
    and "w \<in> set (map fst (players g))"
  shows "calculateRoundResults g = Inr (g, Special (Ref w) True True)"
proof -
  from assms(2) obtain e1 e2 where rn: "roundNumbers g = [e1, e2]"
    by (cases "roundNumbers g"; cases "tl (roundNumbers g)") auto
  obtain a x b y where e: "e1 = (a, x)" "e2 = (b, y)" by (cases e1; cases e2) auto
  from assms(3) rn e have xy: "x = 0 \<and> y = 100 \<or> x = 100 \<and> y = 0"
    by (auto simp: doubleton_eq_iff)
  have f: "find (\<lambda>(_, num). num = 100) (roundNumbers g) = Some (w, 100)"
    using xy assms(4) rn e by auto
  have sp: "specialRuleApplies g"
    using assms(1,3) by (simp add: specialRuleApplies_def)
  show ?thesis
    using calculateRoundResults_special [OF sp] f players_get_Ref [OF assms(5)] by simp
qed

theorem sudden_death_witness:
  "calculateRoundResults gameTwo = Inr (gameTwo, Special (Ref ''b'') True True)"
proof -
  have 1: "length (getAlivePlayers gameTwo) = 2" by (simp add: example_defs getAlivePlayers_def)
  have 2: "length (roundNumbers gameTwo) = 2" by (simp add: example_defs)
  have 3: "set (map snd (roundNumbers gameTwo)) = {0, 100}" by (simp add: example_defs)
  have 4: "(''b'', 100) \<in> set (roundNumbers gameTwo)" by (simp add: example_defs)
  have 5: "''b'' \<in> set (map fst (players gameTwo))" by (simp add: example_defs)
  from sudden_death [OF 1 2 3 4 5] show ?thesis .
qed

text \<open>
  C3. Outside the rule for two players, the resolution first runs the whole penalty
  loop, which returns a game \<open>g1\<close> in which nobody has been eliminated yet and the
  counter is unchanged. Then, in the same call, every player of \<open>g1\<close> who is alive with
  at most \<open>-10\<close> points is marked not alive, nothing else changes, and
  \<open>eliminatedCount\<close> grows by exactly the number of these players.
\<close>

theorem elimination_after_penalties:
  assumes "wellFormed g" and "\<not> specialRuleApplies g"
  shows "\<exists>g1 g' r.
     calculateRoundResults g = Inr (g', Results r) \<and>
     applyPenalties (winner r) (target r) (roundNumbers g) g = Inr g1 \<and>
     map (\<lambda>e. isAlive (snd e)) (players g1) = map (\<lambda>e. isAlive (snd e)) (players g) \<and>
     eliminatedCount g1 = eliminatedCount g \<and>
     players g' =
       map (\<lambda>(k, p). (k, if isAlive p \<and> points p \<le> -10 then p\<lparr>isAlive := False\<rparr> else p))
           (players g1) \<and>
     eliminatedCount g' =
       eliminatedCount g + length (filter (\<lambda>(k, p). isAlive p \<and> points p \<le> -10) (players g1)) \<and>
     eliminations r = map fst (filter (\<lambda>(k, p). isAlive p \<and> points p \<le> -10) (players g1))"
proof -
  have sub: "set (map fst (roundNumbers g)) \<subseteq> set (map fst (players g))"
    using assms(1) by (simp add: wellFormed_def)
  show ?thesis
  proof (rule calculateRoundResults_normal [OF assms(2) sub])
    fix g1 g2 r wd
    assume ap: "applyPenalties (winner r) (target r) (roundNumbers g) g = Inr g1"
      and g2: "g2 = g1\<lparr>players :=
                   map (\<lambda>(k, p). (k, if isAlive p \<and> points p \<le> -10 then p\<lparr>isAlive := False\<rparr> else p))
                       (players g1),
                 eliminatedCount := eliminatedCount g1 +
                   length (filter (\<lambda>(k, p). isAlive p \<and> points p \<le> -10) (players g1))\<rparr>"
      and calc: "calculateRoundResults g = Inr (g2, Results r)"
      and el: "eliminations r = map fst (filter (\<lambda>(k, p). isAlive p \<and> points p \<le> -10) (players g1))"
    from applyPenalties_frame [OF sub, of "winner r" "target r"] ap
    have fr: "g1 = g\<lparr>players := players g1\<rparr>"
      and al: "map (\<lambda>e. isAlive (snd e)) (players g1) = map (\<lambda>e. isAlive (snd e)) (players g)"
      by auto
    have ec: "eliminatedCount g1 = eliminatedCount g" by (subst fr) simp
    have pl: "players g2 =
       map (\<lambda>(k, p). (k, if isAlive p \<and> points p \<le> -10 then p\<lparr>isAlive := False\<rparr> else p))
           (players g1)" by (simp add: g2)
    have ec2: "eliminatedCount g2 =
       eliminatedCount g + length (filter (\<lambda>(k, p). isAlive p \<and> points p \<le> -10) (players g1))"
      by (simp add: g2 ec)
    from calc ap al ec pl ec2 el show ?thesis by blast
  qed
qed

theorem elimination_after_penalties_witness:
  "wellFormed gameThree \<and> \<not> specialRuleApplies gameThree \<and>
   (\<exists>g1 g' r.
     calculateRoundResults gameThree = Inr (g', Results r) \<and>
     applyPenalties (winner r) (target r) (roundNumbers gameThree) gameThree = Inr g1 \<and>
     map (\<lambda>e. isAlive (snd e)) (players g1) = map (\<lambda>e. isAlive (snd e)) (players gameThree) \<and>
     eliminatedCount g1 = eliminatedCount gameThree \<and>
     players g' =
       map (\<lambda>(k, p). (k, if isAlive p \<and> points p \<le> -10 then p\<lparr>isAlive := False\<rparr> else p))
           (players g1) \<and>
     eliminatedCount g' =
       eliminatedCount gameThree +
       length (filter (\<lambda>(k, p). isAlive p \<and> points p \<le> -10) (players g1)) \<and>
     eliminations r = map fst (filter (\<lambda>(k, p). isAlive p \<and> points p \<le> -10) (players g1)))"
proof -
  have 1: "wellFormed gameThree" by (simp add: wellFormed_def example_defs)
  have 2: "\<not> specialRuleApplies gameThree"
    by (simp add: specialRuleApplies_def example_defs getAlivePlayers_def)
  from elimination_after_penalties [OF 1 2] 1 2 show ?thesis by blast
qed

text \<open>
  C4. When the rule for two players does not fire, every player who submitted and is
  not the winner loses exactly one point, or exactly two points when exactly three
  players are alive and the submitted value equals the target; the winner keeps its
  points.
\<close>

theorem penalties:
  assumes "wellFormed g" and "\<not> specialRuleApplies g"
  shows "\<exists>g' r. calculateRoundResults g = Inr (g', Results r) \<and>
     (\<forall>(k, n) \<in> set (roundNumbers g). \<exists>pts.
         pointsOf g k = Some pts \<and>
         pointsOf g' k = Some (pts -
           (if winner r = Ref k then 0
            else if length (getAlivePlayers g) = 3 \<and> target r = Num n then 2 else 1)))"
proof -
  from resolution_returns [OF assms] obtain g' r where
    calc: "calculateRoundResults g = Inr (g', Results r)" by blast
  have "\<exists>pts. pointsOf g k = Some pts \<and>
         pointsOf g' k = Some (pts -
           (if winner r = Ref k then 0
            else if length (getAlivePlayers g) = 3 \<and> target r = Num n then 2 else 1))"
    if "(k, n) \<in> set (roundNumbers g)" for k n
  proof -
    from submitter_points [OF assms(1) that] obtain pts where
      m: "map_of (roundNumbers g) k = Some n" and p: "pointsOf g k = Some pts" by blast
    show ?thesis
      unfolding points_after_resolution [OF assms(1) calc, of k] m p by simp
  qed
  with calc show ?thesis by blast
qed

theorem penalties_witness:
  "wellFormed gameThree \<and> \<not> specialRuleApplies gameThree \<and>
   (\<exists>g' r. calculateRoundResults gameThree = Inr (g', Results r) \<and>
     (\<forall>(k, n) \<in> set (roundNumbers gameThree). \<exists>pts.
         pointsOf gameThree k = Some pts \<and>
         pointsOf g' k = Some (pts -
           (if winner r = Ref k then 0
            else if length (getAlivePlayers gameThree) = 3 \<and> target r = Num n then 2 else 1))))"
proof -
  have 1: "wellFormed gameThree" by (simp add: wellFormed_def example_defs)
  have 2: "\<not> specialRuleApplies gameThree"
    by (simp add: specialRuleApplies_def example_defs getAlivePlayers_def)
  from penalties [OF 1 2] 1 2 show ?thesis by blast
qed

text \<open>
  C5. As stated, the equivalence fails when the rule for two players fires: the result
  has \<open>gameOver = true\<close> while two players are alive.
\<close>

theorem gameOver_flag_counterexample:
  "run roundsToTwo (new_DeathGame (fivePlayers 0 0 0 0 0)) = Inr gameTwo \<and>
   calculateRoundResults gameTwo = Inr (gameTwo, Special (Ref ''b'') True True) \<and>
   gameOver_of (Special (Ref ''b'') True True) \<and>
   length (getAlivePlayers gameTwo) = 2 \<and> \<not> length (getAlivePlayers gameTwo) \<le> 1"
  using gameTwo_reachable gameTwo_resolution by (simp add: example_defs getAlivePlayers_def)

text \<open>
  C5, amended. A resolution of a well-formed game returns, and reports
  \<open>gameOver = true\<close> exactly when at most one player is alive after the elimination
  check or the rule for two players fired; in the latter case the game is unchanged
  and exactly two players are alive.
\<close>

theorem gameOver_flag:
  assumes "wellFormed g"
  shows "\<exists>g' r. calculateRoundResults g = Inr (g', r) \<and>
     (gameOver_of r \<longleftrightarrow> length (getAlivePlayers g') \<le> 1 \<or> specialRule_of r) \<and>
     (specialRule_of r \<longleftrightarrow> specialRuleApplies g) \<and>
     (specialRule_of r \<longrightarrow> g' = g \<and> length (getAlivePlayers g') = 2)"
proof (cases "specialRuleApplies g")
  case True
  from special_resolution_returns [OF True] obtain k where
    "calculateRoundResults g = Inr (g, Special (players_get g k) True True)" ..
  moreover have "length (getAlivePlayers g) = 2"
    using True by (simp add: specialRuleApplies_def)
  ultimately show ?thesis using True by auto
next
  case False
  from resolution_returns [OF assms False] obtain g' r where
    calc: "calculateRoundResults g = Inr (g', Results r)" by blast
  from gameOver_of_resolution [OF assms calc] calc False show ?thesis by auto
qed

theorem gameOver_flag_witness:
  "wellFormed gameFour \<and>
   (\<exists>g' r. calculateRoundResults gameFour = Inr (g', r) \<and>
     (gameOver_of r \<longleftrightarrow> length (getAlivePlayers g') \<le> 1 \<or> specialRule_of r) \<and>
     (specialRule_of r \<longleftrightarrow> specialRuleApplies gameFour) \<and>
     (specialRule_of r \<longrightarrow> g' = gameFour \<and> length (getAlivePlayers g') = 2))"
proof -
  have 1: "wellFormed gameFour" by (simp add: wellFormed_def example_defs)
  from gameOver_flag [OF 1] 1 show ?thesis by blast
qed

text \<open>
  C6. The code never assigns \<open>roundEnd\<close>: after the first resolution of a fresh game of
  five the phase is still \<open>playing\<close>, and a further submission is accepted (it even
  reports that all players have submitted).
\<close>

theorem phase_stays_playing:
  "run (playRound ''a'') (new_DeathGame (fivePlayers 0 0 0 0 0)) = Inr afterRoundOne \<and>
   currentPhase afterRoundOne = playing \<and>
   submitNumber ''b'' 1 afterRoundOne =
     (afterRoundOne\<lparr>roundNumbers :=
        [(''a'', 80), (''b'', 1), (''c'', 100), (''d'', 100), (''e'', 100)]\<rparr>, True)"
proof -
  have "run (playRound ''a'') (new_DeathGame (fivePlayers 0 0 0 0 0)) = Inr afterRoundOne"
    unfolding new_DeathGame_def afterRoundOne_def by (simp add: round_won_by_a)
  moreover have "currentPhase afterRoundOne = playing" by (simp add: afterRoundOne_def)
  moreover have "submitNumber ''b'' 1 afterRoundOne =
     (afterRoundOne\<lparr>roundNumbers :=
        [(''a'', 80), (''b'', 1), (''c'', 100), (''d'', 100), (''e'', 100)]\<rparr>, True)"
    by (simp add: afterRoundOne_def submitNumber_def fivePlayers_def mkPlayer_def new_Player_def
                  Map_get_def getAlivePlayers_def)
  ultimately show ?thesis by simp
qed

text \<open>
  C7. As stated, the claim fails after a resolution that eliminates a player: after ten
  rounds of a fresh game of five, \<open>e\<close> is eliminated and is still a key of
  \<open>roundNumbers\<close>, which only the next \<open>startRound\<close> clears.
\<close>

theorem submissions_keys_counterexample:
  "run tenRounds (new_DeathGame (fivePlayers 0 0 0 0 0)) = Inr afterTenRounds \<and>
   ''e'' \<in> set (map fst (roundNumbers afterTenRounds)) \<and>
   ''e'' \<notin> set (aliveIds afterTenRounds)"
  using tenRounds_run by (simp add: afterTenRounds_def aliveIds_def mkPlayer_def new_Player_def)

text \<open>
  C7, amended. In every state a new game reaches, every key of \<open>roundNumbers\<close> is a key
  of \<open>players\<close> and the id of a player who was alive when the last \<open>startRound\<close>
  returned (when the game was created, if there was none). The players alive now were
  all alive then, and they are the same players as long as no resolution has run since:
  so a key is the id of a player who is alive now or whom a resolution has eliminated
  since the last \<open>startRound\<close>. No call other than \<open>startRound\<close> removes a key.
\<close>

theorem submissions_keys:
  assumes "distinct (map fst ps)"
  shows "\<exists>g0 g. run (untilStart xs) (new_DeathGame ps) = Inr g0 \<and>
           run xs (new_DeathGame ps) = Inr g \<and>
           set (map fst (roundNumbers g)) \<subseteq> set (map fst (players g)) \<and>
           set (map fst (roundNumbers g)) \<subseteq> set (aliveIds g0) \<and>
           set (aliveIds g) \<subseteq> set (aliveIds g0) \<and>
           (CalculateRoundResults \<notin> set (sinceStart xs) \<longrightarrow> aliveIds g = aliveIds g0) \<and>
           (\<forall>x g'. \<not> isStartRound x \<and> exec x g = Inr g' \<longrightarrow>
              set (map fst (roundNumbers g)) \<subseteq> set (map fst (roundNumbers g')))"
proof -
  let ?i = "new_DeathGame ps"
  have w0: "wellFormed ?i" using assms by (rule wellFormed_new_DeathGame)
  have "\<exists>g0 g. run (untilStart xs) ?i = Inr g0 \<and> run xs ?i = Inr g \<and> wellFormed g \<and>
           set (map fst (roundNumbers g)) \<subseteq> set (aliveIds g0) \<and>
           set (aliveIds g) \<subseteq> set (aliveIds g0) \<and>
           (CalculateRoundResults \<notin> set (sinceStart xs) \<longrightarrow> aliveIds g = aliveIds g0)"
  proof (induction xs rule: rev_induct)
    case Nil
    show ?case using w0 by (simp add: untilStart_def new_DeathGame_def)
  next
    case (snoc x xs)
    then obtain g0 g where r0: "run (untilStart xs) ?i = Inr g0" and r: "run xs ?i = Inr g"
      and w: "wellFormed g"
      and keys: "set (map fst (roundNumbers g)) \<subseteq> set (aliveIds g0)"
      and al: "set (aliveIds g) \<subseteq> set (aliveIds g0)"
      and same: "CalculateRoundResults \<notin> set (sinceStart xs) \<longrightarrow> aliveIds g = aliveIds g0"
      by blast
    from exec_wf [OF w, of x] obtain g' where e: "exec x g = Inr g'" and w': "wellFormed g'"
      by blast
    have r': "run (xs @ [x]) ?i = Inr g'" using r e by (simp add: run_append)
    show ?case
    proof (cases x)
      case (StartRound now)
      then have u: "untilStart (xs @ [x]) = xs @ [x]" by (simp add: untilStart_snoc)
      have "roundNumbers g' = []" using e StartRound by (auto simp: fst_startRound)
      with r' w' show ?thesis unfolding u by auto
    next
      case (SubmitNumber k n)
      then have u: "untilStart (xs @ [x]) = untilStart xs"
        and s: "sinceStart (xs @ [x]) = sinceStart xs @ [x]"
        by (simp_all add: untilStart_snoc sinceStart_snoc)
      have g': "g' = fst (submitNumber k n g)" using e SubmitNumber by simp
      have a': "aliveIds g' = aliveIds g" by (simp add: g' fst_submitNumber aliveIds_def)
      have k': "set (map fst (roundNumbers g')) \<subseteq> set (aliveIds g0)"
      proof (cases "currentPhase g = playing \<and>
                    (case Map_get (players g) k of None \<Rightarrow> False | Some p \<Rightarrow> isAlive p)")
        case True
        then have "k \<in> set (aliveIds g)" by (simp add: alive_lookup)
        with al keys True show ?thesis by (auto simp: g' fst_submitNumber)
      next
        case False
        then have "g' = g" unfolding g' by (auto simp: fst_submitNumber)
        with keys show ?thesis by simp
      qed
      have "CalculateRoundResults \<notin> set (sinceStart (xs @ [x])) \<longrightarrow> aliveIds g' = aliveIds g0"
        using same SubmitNumber by (simp add: sinceStart_snoc a')
      with r0 r' w' k' al a' show ?thesis unfolding u by auto
    next
      case CalculateRoundResults
      then have u: "untilStart (xs @ [x]) = untilStart xs"
        and s: "CalculateRoundResults \<in> set (sinceStart (xs @ [x]))"
        by (simp_all add: untilStart_snoc sinceStart_snoc)
      from e CalculateRoundResults obtain r2 where
        calc: "calculateRoundResults g = Inr (g', r2)"
        by (auto split: sum.splits)
      from resolution_alive [OF w calc] al have a': "set (aliveIds g') \<subseteq> set (aliveIds g0)"
        by blast
      from resolution_frame [OF w] calc have "roundNumbers g' = roundNumbers g" by auto
      with keys have k': "set (map fst (roundNumbers g')) \<subseteq> set (aliveIds g0)" by simp
      from r0 r' w' k' a' s show ?thesis unfolding u by blast
    next
      case IncrementRound
      then have u: "untilStart (xs @ [x]) = untilStart xs"
        and s: "sinceStart (xs @ [x]) = sinceStart xs @ [x]"
        by (simp_all add: untilStart_snoc sinceStart_snoc)
      have g': "g' = g\<lparr>round' := round' g + 1\<rparr>" using e IncrementRound by simp
      then have eqs: "roundNumbers g' = roundNumbers g" "aliveIds g' = aliveIds g"
        by (simp_all add: aliveIds_def)
      have "CalculateRoundResults \<notin> set (sinceStart (xs @ [x])) \<longrightarrow> aliveIds g' = aliveIds g0"
        using same IncrementRound by (simp add: sinceStart_snoc eqs)
      with r0 r' w' keys al eqs show ?thesis unfolding u by auto
    qed
  qed
  then obtain g0 g where r0: "run (untilStart xs) ?i = Inr g0" and r: "run xs ?i = Inr g"
      and w: "wellFormed g"
      and keys: "set (map fst (roundNumbers g)) \<subseteq> set (aliveIds g0)"
      and al: "set (aliveIds g) \<subseteq> set (aliveIds g0)"
      and same: "CalculateRoundResults \<notin> set (sinceStart xs) \<longrightarrow> aliveIds g = aliveIds g0"
    by blast
  have p: "set (map fst (roundNumbers g)) \<subseteq> set (map fst (players g))"
    using w by (simp add: wellFormed_def)
  have "\<forall>x g'. \<not> isStartRound x \<and> exec x g = Inr g' \<longrightarrow>
              set (map fst (roundNumbers g)) \<subseteq> set (map fst (roundNumbers g'))"
    using keys_persist [OF w] by blast
  with r0 r p keys al same show ?thesis by blast
qed

theorem submissions_keys_witness:
  "distinct (map fst (fivePlayers 0 0 0 0 0)) \<and>
   CalculateRoundResults \<notin> set (sinceStart [StartRound 0, SubmitNumber ''a'' 80]) \<and>
   (\<exists>g0 g.
      run (untilStart [StartRound 0, SubmitNumber ''a'' 80]) (new_DeathGame (fivePlayers 0 0 0 0 0))
        = Inr g0 \<and>
      run [StartRound 0, SubmitNumber ''a'' 80] (new_DeathGame (fivePlayers 0 0 0 0 0)) = Inr g \<and>
      set (map fst (roundNumbers g)) \<subseteq> set (map fst (players g)) \<and>
      set (map fst (roundNumbers g)) \<subseteq> set (aliveIds g0) \<and>
      set (aliveIds g) \<subseteq> set (aliveIds g0) \<and>
      (CalculateRoundResults \<notin> set (sinceStart [StartRound 0, SubmitNumber ''a'' 80]) \<longrightarrow>
         aliveIds g = aliveIds g0) \<and>
      (\<forall>x g'. \<not> isStartRound x \<and> exec x g = Inr g' \<longrightarrow>
         set (map fst (roundNumbers g)) \<subseteq> set (map fst (roundNumbers g'))))"
proof -
  have 1: "distinct (map fst (fivePlayers 0 0 0 0 0))" by (simp add: fivePlayers_def)
  have 2: "CalculateRoundResults \<notin> set (sinceStart [StartRound 0, SubmitNumber ''a'' 80])"
    by (simp add: sinceStart_def)
  from submissions_keys [OF 1, of "[StartRound 0, SubmitNumber ''a'' 80]"] 1 2
  show ?thesis by blast
qed

text \<open>
  C8. From a well-formed game, every sequence of round starts, submissions, round
  resolutions and round increments returns, and no player's points are higher at the
  end than at the start. A single call is a sequence of length one, and the game stays
  well formed, so this holds after each call.
\<close>

theorem points_never_increase:
  assumes "wellFormed g"
  shows "\<exists>g'. run xs g = Inr g' \<and> wellFormed g' \<and>
           (\<forall>k pts. pointsOf g k = Some pts \<longrightarrow> (\<exists>pts'. pointsOf g' k = Some pts' \<and> pts' \<le> pts))"
  using assms
proof (induction xs arbitrary: g)
  case Nil
  then show ?case by simp
next
  case (Cons x xs)
  from exec_wf [OF Cons.prems, of x] obtain g1 where
    e: "exec x g = Inr g1" and w: "wellFormed g1"
    and p1: "\<forall>k pts. pointsOf g k = Some pts \<longrightarrow> (\<exists>pts'. pointsOf g1 k = Some pts' \<and> pts' \<le> pts)"
    by blast
  from Cons.IH [OF w] obtain g' where
    r: "run xs g1 = Inr g'" and w': "wellFormed g'"
    and p2: "\<forall>k pts. pointsOf g1 k = Some pts \<longrightarrow> (\<exists>pts'. pointsOf g' k = Some pts' \<and> pts' \<le> pts)"
    by blast
  have "\<exists>pts'. pointsOf g' k = Some pts' \<and> pts' \<le> pts" if "pointsOf g k = Some pts" for k pts
  proof -
    from p1 that obtain q where q: "pointsOf g1 k = Some q" "q \<le> pts" by blast
    from p2 q(1) obtain q' where "pointsOf g' k = Some q'" "q' \<le> q" by blast
    with q(2) show ?thesis by auto
  qed
  with e r w' show ?case by simp
qed

theorem points_never_increase_witness:
  "wellFormed gameThree \<and>
   (\<exists>g'. run [CalculateRoundResults, IncrementRound, StartRound 1, SubmitNumber ''b'' 3] gameThree
            = Inr g' \<and> wellFormed g' \<and>
      (\<forall>k pts. pointsOf gameThree k = Some pts \<longrightarrow>
          (\<exists>pts'. pointsOf g' k = Some pts' \<and> pts' \<le> pts)))"
proof -
  have 1: "wellFormed gameThree" by (simp add: wellFormed_def example_defs)
  from points_never_increase [OF 1] 1 show ?thesis by blast
qed

text \<open>
  C9. If at most four players are alive, each of them has submitted, and every
  submitted value was submitted by two or more players, then the resolution selects no
  winner (\<open>winner\<close> is \<open>null\<close>) and every player who submitted loses one point, or two
  when three players are alive and the value equals the target.
\<close>

theorem all_duplicates_no_winner:
  assumes "wellFormed g"
    and "length (getAlivePlayers g) \<le> 4"
    and "\<forall>(k, n) \<in> set (roundNumbers g). 2 \<le> timesSubmitted (roundNumbers g) n"
    and "length (roundNumbers g) = length (getAlivePlayers g)"
  shows "\<exists>g' r. calculateRoundResults g = Inr (g', Results r) \<and> winner r = Null \<and>
     (\<forall>(k, n) \<in> set (roundNumbers g). \<exists>pts.
         pointsOf g k = Some pts \<and>
         pointsOf g' k = Some (pts -
           (if length (getAlivePlayers g) = 3 \<and> target r = Num n then 2 else 1)))"
proof -
  let ?rn = "roundNumbers g"
  have ns: "\<not> specialRuleApplies g"
  proof
    assume sp: "specialRuleApplies g"
    then have two: "length ?rn = 2" and z: "0 \<in> set (map snd ?rn)" and h: "100 \<in> set (map snd ?rn)"
      using assms(4) by (simp_all add: specialRuleApplies_def)
    from z assms(3) have "2 \<le> timesSubmitted ?rn 0" by auto
    moreover from h assms(3) have "2 \<le> timesSubmitted ?rn 100" by auto
    moreover have "timesSubmitted ?rn 0 + timesSubmitted ?rn 100 \<le> length ?rn"
      unfolding timesSubmitted_def by (rule filter_disjoint_length) simp
    ultimately show False using two by simp
  qed
  from resolution_returns [OF assms(1) ns] obtain g' r where
    calc: "calculateRoundResults g = Inr (g', Results r)" by blast
  have inel: "\<not> eligible g n" if "(k, n) \<in> set ?rn" for k n
    using assms(2,3) that by (auto simp: eligible_def)
  have w: "winner r = Null"
    using winner_of_resolution [OF assms(1) calc] inel by blast
  have "\<exists>pts. pointsOf g k = Some pts \<and>
         pointsOf g' k = Some (pts -
           (if length (getAlivePlayers g) = 3 \<and> target r = Num n then 2 else 1))"
    if "(k, n) \<in> set ?rn" for k n
  proof -
    from submitter_points [OF assms(1) that] obtain pts where
      m: "map_of ?rn k = Some n" and p: "pointsOf g k = Some pts" by blast
    show ?thesis
      unfolding points_after_resolution [OF assms(1) calc, of k] m p w by simp
  qed
  with calc w show ?thesis by blast
qed

theorem all_duplicates_no_winner_witness:
  "wellFormed gameFour \<and> length (getAlivePlayers gameFour) \<le> 4 \<and>
   map (\<lambda>(k, n). timesSubmitted (roundNumbers gameFour) n) (roundNumbers gameFour) = [2, 2, 2, 2] \<and>
   length (roundNumbers gameFour) = length (getAlivePlayers gameFour) \<and>
   (\<exists>g' r. calculateRoundResults gameFour = Inr (g', Results r) \<and> winner r = Null \<and>
     (\<forall>(k, n) \<in> set (roundNumbers gameFour). \<exists>pts.
         pointsOf gameFour k = Some pts \<and>
         pointsOf g' k = Some (pts -
           (if length (getAlivePlayers gameFour) = 3 \<and> target r = Num n then 2 else 1))))"
proof -
  have 1: "wellFormed gameFour" by (simp add: wellFormed_def example_defs)
  have 2: "length (getAlivePlayers gameFour) \<le> 4" by (simp add: example_defs getAlivePlayers_def)
  have 3: "\<forall>(k, n) \<in> set (roundNumbers gameFour). 2 \<le> timesSubmitted (roundNumbers gameFour) n"
    by (simp add: example_defs timesSubmitted_def)
  have 4: "length (roundNumbers gameFour) = length (getAlivePlayers gameFour)"
    by (simp add: example_defs getAlivePlayers_def)
  have 5: "map (\<lambda>(k, n). timesSubmitted (roundNumbers gameFour) n) (roundNumbers gameFour)
             = [2, 2, 2, 2]"
    by (simp add: example_defs timesSubmitted_def)
  from all_duplicates_no_winner [OF 1 2 3 4] 1 2 4 5 show ?thesis by blast
qed

text \<open>
  C10. Every run of the server from its initial state returns, every waiting room
  holds at most four players at the end of it, and no event of the run emits the error
  \<open>Room is full\<close>. This holds for every sequence of events, so at the end of each
  event.
\<close>

theorem waiting_rooms_below_quorum:
  "\<exists>srv out. serve evs initialServer = Inr (srv, out) \<and>
     (\<forall>e \<in> set (waitingRooms srv). length (roomPlayers (snd e)) \<le> 4) \<and>
     emit_error ''Room is full'' \<notin> set out"
proof -
  have "serverInvariant initialServer" by (simp add: serverInvariant_def initialServer_def)
  from serve_invariant [OF this, of evs] show ?thesis
    by (auto simp: serverInvariant_def)
qed

theorem waiting_rooms_below_quorum_witness:
  "\<exists>srv out. serve sixJoins initialServer = Inr (srv, out) \<and>
     (\<forall>e \<in> set (waitingRooms srv). length (roomPlayers (snd e)) \<le> 4) \<and>
     emit_error ''Room is full'' \<notin> set out"
  using waiting_rooms_below_quorum [of sixJoins] .

end
